theory Spec2Isabelle
  imports Main "HOL-Library.AList"
begin

section \<open>Data model of \<^verbatim>\<open>src/index.ts\<close>\<close>

text \<open>
  The validator walks JSON specification files that \<^verbatim>\<open>readme.md\<close> manifests declare.
  Everything below is a shallow embedding of \<^verbatim>\<open>src/index.ts\<close>. Libraries the file
  imports (the file system, the JSON parser, Node's \<^verbatim>\<open>path\<close> module, the YAML
  loader, the markdown reader, the object hash, the regular-expression engine) are
  parameters of the model; the code of \<^verbatim>\<open>index.ts\<close> itself is written out.
\<close>

datatype Kind = EXAMPLE | SWAGGER

record Specification =
  path :: string
  readMePath :: string
  kind :: Kind

text \<open>\<^verbatim>\<open>type Ref = { url, pointer }\<close>.\<close>

record Ref =
  url :: string
  pointer :: string

text \<open>
  A parsed JSON value. A number carries the text JavaScript prints for it; the
  validator never computes with numbers. An object is its prototype together
  with the list of its own enumerable properties in enumeration order. The
  prototype is \<^verbatim>\<open>Object.prototype\<close> unless the parser has changed it: a parser
  that assigns the members of an object (\<^verbatim>\<open>o[key] = value\<close>) makes the value of
  a member named \<^verbatim>\<open>__proto__\<close> the prototype when that value is an object, an
  array or \<^verbatim>\<open>null\<close>, and adds no own property for it. \<open>Prototype p\<close> is the
  prototype \<open>p\<close>, an object or an array. The prototype of an array is always
  \<^verbatim>\<open>Array.prototype\<close>, and its own properties are its elements and its length.
\<close>

datatype Json =
    JNull
  | JBoolean bool
  | JNumber string
  | JString string
  | JArray "Json list"
  | JObject Proto "(string \<times> Json) list"
and Proto =
    ObjectPrototype
  | NullPrototype
  | Prototype Json

text \<open>
  What the JSON parser reports through \<^verbatim>\<open>reportError\<close>: the document's URL and the
  position of the error; \<open>details\<close> stands for the remaining fields of the report.
\<close>

record FilePosition =
  line :: nat
  column :: nat

record ParseError =
  url :: string
  position :: FilePosition
  details :: string

datatype Code =
    UNREFERENCED_JSON_FILE
  | NO_JSON_FILE_FOUND
  | NOT_AUTOREST_MARKDOWN
  | JSON_PARSE
  | CIRCULAR_REFERENCE
  | MISSING_README
  | INCONSISTENT_API_VERSION
  | MULTIPLE_API_VERSION
  | INVALID_FILE_LOCATION

datatype Level = Error | Warning

text \<open>
  \<^verbatim>\<open>err.Error\<close> is a union discriminated by \<^verbatim>\<open>code\<close>. Its declaration
  (\<^verbatim>\<open>errors.ts\<close>) is not part of the sources; the variants are read off the object
  literals that \<^verbatim>\<open>index.ts\<close> yields. Every literal has \<^verbatim>\<open>message\<close>,
  \<^verbatim>\<open>level\<close> and \<^verbatim>\<open>path\<close>; \<open>body\<close> holds the code together with the fields
  that are specific to it.
\<close>

datatype Body =
    UnreferencedJsonFile (readMeUrl: string) (jsonUrl: string)
  | NoJsonFileFound (readMeUrl: string) (jsonUrl: string)
  | NotAutorestMarkdown (readMeUrl: string) (helpUrl: string)
  | JsonParse (error: ParseError)
  | CircularReference (readMeUrl: string) (jsonUrl: string)
  | MissingReadme (folderUrl: string)
  | InconsistentApiVersion (jsonUrl: string) (readMeUrl: string)
  | MultipleApiVersion (readMeUrl: string) (tag: "string option")
  | InvalidFileLocation (jsonUrl: string) (readMeUrl: string)

record Error =
  body :: Body
  message :: string
  level :: Level
  path :: string

fun codeOf :: "Body \<Rightarrow> Code" where
  "codeOf (UnreferencedJsonFile r j) = UNREFERENCED_JSON_FILE"
| "codeOf (NoJsonFileFound r j) = NO_JSON_FILE_FOUND"
| "codeOf (NotAutorestMarkdown r h) = NOT_AUTOREST_MARKDOWN"
| "codeOf (JsonParse e) = JSON_PARSE"
| "codeOf (CircularReference r j) = CIRCULAR_REFERENCE"
| "codeOf (MissingReadme f) = MISSING_README"
| "codeOf (InconsistentApiVersion j r) = INCONSISTENT_API_VERSION"
| "codeOf (MultipleApiVersion r t) = MULTIPLE_API_VERSION"
| "codeOf (InvalidFileLocation j r) = INVALID_FILE_LOCATION"

definition code :: "Error \<Rightarrow> Code" where
  "code e = codeOf (body e)"

text \<open>The exceptions JavaScript can raise in the modelled code.\<close>

datatype Exn = TypeError | SyntaxError

section \<open>Strings\<close>

text \<open>
  A \<open>string\<close> stands for a JavaScript string as its sequence of code units. The
  functions below only compare code units with each other and with ASCII
  characters.
\<close>

text \<open>\<^verbatim>\<open>s.split(c)\<close> for a one-character separator: never empty, \<^verbatim>\<open>''.split(c) = ['']\<close>.\<close>

fun split :: "char \<Rightarrow> string \<Rightarrow> string list" where
  "split c [] = [[]]"
| "split c (x # xs) =
     (if x = c then [] # split c xs
      else (case split c xs of [] \<Rightarrow> [[x]] | s # ss \<Rightarrow> (x # s) # ss))"

fun startsWith :: "string \<Rightarrow> string \<Rightarrow> bool" where
  "startsWith s [] = True"
| "startsWith [] (c # cs) = False"
| "startsWith (x # xs) (c # cs) = (x = c \<and> startsWith xs cs)"

text \<open>\<^verbatim>\<open>s.includes(sub)\<close>: \<open>sub\<close> occurs in \<open>s\<close> as a contiguous run.\<close>

fun includesStr :: "string \<Rightarrow> string \<Rightarrow> bool" where
  "includesStr [] sub = (sub = [])"
| "includesStr (x # xs) sub = (startsWith (x # xs) sub \<or> includesStr xs sub)"

text \<open>\<^verbatim>\<open>s.indexOf(c)\<close>: the first index of \<open>c\<close>, or \<open>-1\<close>.\<close>

fun indexOf :: "string \<Rightarrow> char \<Rightarrow> int" where
  "indexOf [] c = -1"
| "indexOf (x # xs) c =
     (if x = c then 0 else (let i = indexOf xs c in if i < 0 then -1 else i + 1))"

section \<open>JSON documents and references\<close>

text \<open>
  \<open>member j k\<close> is the value of the property \<open>k\<close> of a value \<open>j\<close> other than
  \<^verbatim>\<open>null\<close>, for a name \<open>k\<close> that none of the built-in prototypes defines and
  that is neither an array index nor \<^verbatim>\<open>length\<close> (the validator reads
  \<^verbatim>\<open>info\<close>, \<^verbatim>\<open>version\<close> and \<^verbatim>\<open>host\<close>). The lookup goes through the own
  properties of an object and then through its prototype chain; \<open>None\<close> is
  JavaScript's \<^verbatim>\<open>undefined\<close>.
\<close>

fun member :: "Json \<Rightarrow> string \<Rightarrow> Json option" where
  "member (JObject proto kvs) k =
     (case map_of kvs k of
        Some v \<Rightarrow> Some v
      | None \<Rightarrow> (case proto of Prototype p \<Rightarrow> member p k | _ \<Rightarrow> None))"
| "member j k = None"

text \<open>The property read \<^verbatim>\<open>j.k\<close> for such a name: it raises a TypeError when \<open>j\<close> is
  \<^verbatim>\<open>null\<close>.\<close>

definition getProperty :: "Json \<Rightarrow> string \<Rightarrow> Exn + Json option" where
  "getProperty j k = (if j = JNull then Inl TypeError else Inr (member j k))"

text \<open>\<^verbatim>\<open>getRefs\<close>: every string value of a \<^verbatim>\<open>$ref\<close> key, in document order.
  \<^verbatim>\<open>stringMap.entries\<close> lists the own properties of an object.\<close>

fun getRefs :: "Json \<Rightarrow> string list" where
  "getRefs (JObject proto kvs) =
     concat (map (\<lambda>kv. (case snd kv of
                           JString s \<Rightarrow> if fst kv = ''$ref'' then [s] else getRefs (snd kv)
                         | _ \<Rightarrow> getRefs (snd kv))) kvs)"
| "getRefs (JArray xs) = concat (map getRefs xs)"
| "getRefs j = []"

definition parseRef :: "string \<Rightarrow> Ref" where
  "parseRef ref =
     (let i = indexOf ref (CHR ''#'')
      in if i < 0 then \<lparr>Ref.url = ref, pointer = ''''\<rparr>
         else \<lparr>Ref.url = take (nat i) ref, pointer = drop (nat (i + 1)) ref\<rparr>)"

text \<open>
  The environment of one run: a snapshot of the readable files (path and
  content; \<^verbatim>\<open>readFile\<close> throws on any other path), the JSON parser
  (\<^verbatim>\<open>jsonParser.parse\<close>: the reported errors and the best-effort document),
  Node's \<^verbatim>\<open>path\<close> functions for the platform and working directory at hand, and
  \<^verbatim>\<open>Array.prototype.toString\<close> applied to an object that is not an array but
  inherits from one (its result depends on the numeric reading of the
  \<^verbatim>\<open>length\<close> that the object shows).
\<close>

record Env =
  files :: "(string \<times> string) list"
  jsonParser_parse :: "string \<Rightarrow> string \<Rightarrow> ParseError list \<times> Json"
  path_dirname :: "string \<Rightarrow> string"
  path_join :: "string \<Rightarrow> string \<Rightarrow> string"
  path_resolve :: "string \<Rightarrow> string"
  path_sep :: char
  Array_prototype_toString :: "Json \<Rightarrow> Exn + string"

text \<open>
  JavaScript's string conversion of a parsed value, as
  \<^verbatim>\<open>String.prototype.includes\<close> applies it to its argument. An object or array is
  converted by the method that reading its \<^verbatim>\<open>toString\<close> property gives, if that
  is callable. \<open>toStringMethod\<close> is that read: an own property of a parsed object
  holds a parsed value, which is never callable; otherwise the read goes on
  along the prototype chain. When \<^verbatim>\<open>toString\<close> is not callable the conversion
  tries \<^verbatim>\<open>valueOf\<close>, which for a parsed object is either not callable or
  \<^verbatim>\<open>Object.prototype.valueOf\<close>, whose result is the object itself and no
  primitive value, so that the conversion raises a TypeError.
\<close>

datatype Method = Object_prototype_toString | Array_toString | NotCallable

fun toStringMethod :: "Json \<Rightarrow> Method" where
  "toStringMethod (JObject proto kvs) =
     (case map_of kvs ''toString'' of
        Some v \<Rightarrow> NotCallable
      | None \<Rightarrow>
          (case proto of
             ObjectPrototype \<Rightarrow> Object_prototype_toString
           | NullPrototype \<Rightarrow> NotCallable
           | Prototype p \<Rightarrow> toStringMethod p))"
| "toStringMethod (JArray xs) = Array_toString"
| "toStringMethod j = NotCallable"

text \<open>\<^verbatim>\<open>Array.prototype.join\<close> with the separator \<^verbatim>\<open>,\<close> over the converted
  elements: the first element that cannot be converted ends the conversion.\<close>

fun joinComma :: "(Exn + string) list \<Rightarrow> Exn + string" where
  "joinComma [] = Inr []"
| "joinComma [r] = r"
| "joinComma (r # r' # rs) =
     (case r of
        Inl x \<Rightarrow> Inl x
      | Inr s \<Rightarrow> (case joinComma (r' # rs) of
                    Inl x \<Rightarrow> Inl x
                  | Inr t \<Rightarrow> Inr (s @ '','' @ t)))"

fun jsToString :: "Env \<Rightarrow> Json \<Rightarrow> Exn + string" where
  "jsToString env JNull = Inr ''null''"
| "jsToString env (JBoolean b) = Inr (if b then ''true'' else ''false'')"
| "jsToString env (JNumber n) = Inr n"
| "jsToString env (JString s) = Inr s"
| "jsToString env (JArray xs) =
     joinComma (map (\<lambda>x. if x = JNull then Inr [] else jsToString env x) xs)"
| "jsToString env (JObject proto kvs) =
     (case toStringMethod (JObject proto kvs) of
        Object_prototype_toString \<Rightarrow> Inr ''[object Object]''
      | Array_toString \<Rightarrow> Array_prototype_toString env (JObject proto kvs)
      | NotCallable \<Rightarrow> Inl TypeError)"

text \<open>The conversion of a value that may be \<^verbatim>\<open>undefined\<close>.\<close>

fun toStringArg :: "Env \<Rightarrow> Json option \<Rightarrow> Exn + string" where
  "toStringArg env None = Inr ''undefined''"
| "toStringArg env (Some j) = jsToString env j"

definition readFile :: "Env \<Rightarrow> string \<Rightarrow> string option" where
  "readFile env p = map_of (files env) p"

definition jsonParse :: "Env \<Rightarrow> string \<Rightarrow> string \<Rightarrow> Error list \<times> Json" where
  "jsonParse env fileName file =
     (let (reported, document) = jsonParser_parse env fileName file
      in (map (\<lambda>e. \<lparr>body = JsonParse e,
                     message = ''The file is not a valid JSON file.'',
                     level = Error,
                     Error.path = fileName\<rparr>) reported,
          document))"

definition getReferencedFileNames :: "Env \<Rightarrow> string \<Rightarrow> Json \<Rightarrow> string list" where
  "getReferencedFileNames env fileName doc =
     (let dir = path_dirname env fileName
      in map (\<lambda>u. path_resolve env (path_join env dir u))
           (filter (\<lambda>u. u \<noteq> '''')
              (map (\<lambda>v. Ref.url (parseRef v)) (getRefs doc))))"

definition moveTo :: "string set \<Rightarrow> string set \<Rightarrow> string \<Rightarrow> string set \<times> string set" where
  "moveTo a b key = (a - {key}, insert key b)"

definition isExample :: "Env \<Rightarrow> string \<Rightarrow> bool" where
  "isExample env filePath = (''examples'' \<in> set (split (path_sep env) filePath))"

section \<open>Rule set\<close>

text \<open>
  Both rules are generators that run when the walker iterates them. An
  exception ends the rule before it has yielded anything: the result is the
  exception or the findings yielded.
\<close>

definition validateSpecificationAPIVersion :: "Env \<Rightarrow> Specification \<Rightarrow> Json \<Rightarrow> Exn + Error list" where
  "validateSpecificationAPIVersion env current document =
     (case getProperty document ''info'' of
        Inl x \<Rightarrow> Inl x
      | Inr None \<Rightarrow> Inr []
      | Inr (Some info) \<Rightarrow>
          (case getProperty info ''version'' of
             Inl x \<Rightarrow> Inl x
           | Inr version \<Rightarrow>
               (case toStringArg env version of
                  Inl x \<Rightarrow> Inl x
                | Inr searchString \<Rightarrow>
                    if \<not> includesStr (Specification.path current) searchString
                    then Inr [\<lparr>body = InconsistentApiVersion (Specification.path current) (readMePath current),
                               message = ''The API version of the swagger is inconsistent with its file path.'',
                               level = Error,
                               Error.path = Specification.path current\<rparr>]
                    else Inr [])))"

definition validateFileLocation :: "Specification \<Rightarrow> Json \<Rightarrow> Exn + Error list" where
  "validateFileLocation current document =
     (case getProperty document ''host'' of
        Inl x \<Rightarrow> Inl x
      | Inr host \<Rightarrow>
          if host = Some (JString ''management.azure.com'')
             \<and> \<not> includesStr (Specification.path current) ''resource-manager''
          then Inr [\<lparr>body = InvalidFileLocation (Specification.path current) (readMePath current),
                     message = ''The management plane swagger JSON file does not match its folder path. Make sure management plane swagger located in resource-manager folder'',
                     level = Warning,
                     Error.path = Specification.path current\<rparr>]
          else Inr [])"

section \<open>The cycle-detecting walker\<close>

text \<open>
  The walker is an async generator that mutates \<^verbatim>\<open>graySet\<close> and \<^verbatim>\<open>blackSet\<close> and
  yields findings as it goes. Its state is passed explicitly: the findings
  yielded so far, the two sets, and whether an exception has escaped (only the
  rules can raise one; it ends the whole generator chain where it stands).
\<close>

record Walk =
  emitted :: "Error list"
  graySet :: "string set"
  blackSet :: "string set"
  thrown :: bool

definition yield :: "Error list \<Rightarrow> Walk \<Rightarrow> Walk" where
  "yield es w = w\<lparr>emitted := emitted w @ es\<rparr>"

definition moveToBlack :: "string \<Rightarrow> Walk \<Rightarrow> Walk" where
  "moveToBlack key w =
     (let (a, b) = moveTo (graySet w) (blackSet w) key
      in w\<lparr>graySet := a, blackSet := b\<rparr>)"

definition noJsonFileFound :: "Specification \<Rightarrow> Error" where
  "noJsonFileFound current =
     \<lparr>body = NoJsonFileFound (readMePath current) (Specification.path current),
      message = ''The JSON file is not found but it is referenced from the readme file.'',
      level = Error,
      Error.path = Specification.path current\<rparr>"

definition circularReference :: "Specification \<Rightarrow> Error" where
  "circularReference current =
     \<lparr>body = CircularReference (readMePath current) (Specification.path current),
      message = ''The JSON file has a circular reference.'',
      level = Warning,
      Error.path = Specification.path current\<rparr>"

text \<open>
  The loop \<^verbatim>\<open>for (const refFileName of refFileNames)\<close> of
  \<^verbatim>\<open>DFSTraversalValidate\<close>. \<open>dfs\<close> is the recursive call; \<open>None\<close> means that the
  recursion ran out of fuel.
\<close>

fun refLoop ::
  "(Specification \<Rightarrow> Walk \<Rightarrow> Walk option) \<Rightarrow> Env \<Rightarrow> Specification \<Rightarrow> string list \<Rightarrow> Walk \<Rightarrow> Walk option"
where
  "refLoop dfs env current [] w = Some w"
| "refLoop dfs env current (refFileName # rest) w =
     (let w1 = (if refFileName \<in> graySet w
                then moveToBlack refFileName (yield [circularReference current] w)
                else w)
      in if refFileName \<notin> blackSet w1
         then (case dfs \<lparr>Specification.path = refFileName,
                          readMePath = readMePath current,
                          kind = (if isExample env refFileName then EXAMPLE else SWAGGER)\<rparr> w1 of
                 None \<Rightarrow> None
               | Some w2 \<Rightarrow> if thrown w2 then Some w2 else refLoop dfs env current rest w2)
         else refLoop dfs env current rest w1)"

text \<open>
  \<^verbatim>\<open>DFSTraversalValidate(current, graySet, blackSet)\<close>. The fuel bounds the depth of
  the recursion; the result is \<open>None\<close> only when the fuel is used up.
\<close>

primrec DFSTraversalValidate :: "Env \<Rightarrow> nat \<Rightarrow> Specification \<Rightarrow> Walk \<Rightarrow> Walk option" where
  "DFSTraversalValidate env 0 = (\<lambda>current w. None)"
| "DFSTraversalValidate env (Suc fuel) = (\<lambda>current w.
     (let w1 = (if Specification.path current \<notin> blackSet w
                then w\<lparr>graySet := insert (Specification.path current) (graySet w)\<rparr>
                else w)
      in case readFile env (Specification.path current) of
           None \<Rightarrow> Some (yield [noJsonFileFound current] w1)
         | Some file \<Rightarrow>
             (let (errors, document) = jsonParse env (Specification.path current) file;
                  w2 = yield errors w1
              in case (if kind current = SWAGGER \<and> document \<noteq> JNull
                       then validateSpecificationAPIVersion env current document
                       else Inr []) of
                   Inl x \<Rightarrow> Some (w2\<lparr>thrown := True\<rparr>)
                 | Inr versionErrors \<Rightarrow>
                     (let w3 = yield versionErrors w2
                      in case (if kind current = SWAGGER \<and> document \<noteq> JNull
                               then validateFileLocation current document
                               else Inr []) of
                           Inl x \<Rightarrow> Some (w3\<lparr>thrown := True\<rparr>)
                         | Inr locationErrors \<Rightarrow>
                             (let w4 = yield locationErrors w3;
                                  refFileNames = (if kind current = SWAGGER
                                                  then getReferencedFileNames env (Specification.path current) document
                                                  else [])
                              in case refLoop (DFSTraversalValidate env fuel) env current refFileNames w4 of
                                   None \<Rightarrow> None
                                 | Some w5 \<Rightarrow>
                                     if thrown w5 then Some w5
                                     else Some (moveToBlack (Specification.path current) w5))))))"

text \<open>The loop over the roots in \<^verbatim>\<open>validateInputFiles\<close>.\<close>

fun walkRoots :: "Env \<Rightarrow> nat \<Rightarrow> Specification list \<Rightarrow> Walk \<Rightarrow> Walk option" where
  "walkRoots env fuel [] w = Some w"
| "walkRoots env fuel (current # rest) w =
     (case DFSTraversalValidate env fuel current w of
        None \<Rightarrow> None
      | Some w1 \<Rightarrow> if thrown w1 then Some w1 else walkRoots env fuel rest w1)"

definition unreferencedJsonFile :: "Specification \<Rightarrow> Error" where
  "unreferencedJsonFile spec =
     \<lparr>body = UnreferencedJsonFile (readMePath spec) (Specification.path spec),
      message = (if kind spec = SWAGGER
                 then ''The swagger JSON file is not referenced from the readme file.''
                 else ''The example JSON file is not referenced from the swagger file.''),
      level = Error,
      Error.path = Specification.path spec\<rparr>"

text \<open>
  \<^verbatim>\<open>validateInputFiles(inputFileSet, allInputFileSet)\<close>. A \<^verbatim>\<open>Set<Specification>\<close>
  holds objects by reference and is iterated in insertion order, so it is a
  list here.
\<close>

definition validateInputFiles ::
  "Env \<Rightarrow> nat \<Rightarrow> Specification list \<Rightarrow> Specification list \<Rightarrow> Walk option"
where
  "validateInputFiles env fuel inputFileSet allInputFileSet =
     (case walkRoots env fuel inputFileSet
             \<lparr>emitted = [], graySet = {}, blackSet = {}, thrown = False\<rparr> of
        None \<Rightarrow> None
      | Some w \<Rightarrow>
          if thrown w then Some w
          else Some (yield (map unreferencedJsonFile
                              (filter (\<lambda>spec. Specification.path spec \<notin> blackSet w) allInputFileSet)) w))"

section \<open>Manifest checks\<close>

text \<open>\<^verbatim>\<open>\d\<close> of a JavaScript regular expression without the unicode flag.\<close>

definition isDigit :: "char \<Rightarrow> bool" where
  "isDigit c = (c \<in> set ''0123456789'')"

text \<open>\<^verbatim>\<open>/^\d{4}-\d{2}-\d{2}(|-preview)$/.test(s)\<close>.\<close>

definition apiVersionRegex :: "string \<Rightarrow> bool" where
  "apiVersionRegex s =
     (length (take 10 s) = 10
      \<and> list_all isDigit (take 4 s)
      \<and> s ! 4 = CHR ''-''
      \<and> list_all isDigit (take 2 (drop 5 s))
      \<and> s ! 7 = CHR ''-''
      \<and> list_all isDigit (take 2 (drop 8 s))
      \<and> (drop 10 s = [] \<or> drop 10 s = ''-preview''))"

definition getVersionFromInputFile :: "string \<Rightarrow> string option" where
  "getVersionFromInputFile filePath =
     (let segments = butlast (split (CHR ''/'') filePath)
      in if length segments > 1 then find apiVersionRegex segments else None)"

text \<open>
  A node of the parsed markdown (\<^verbatim>\<open>commonmark.Node\<close>): its type, its literal and
  info strings (\<^verbatim>\<open>null\<close> is \<open>None\<close>) and its children; \<^verbatim>\<open>firstChild\<close> is the
  head of the children and \<^verbatim>\<open>next\<close> walks along them.
\<close>

datatype Node = Node (nodeType: string) (literal: "string option") (info: "string option")
  (children: "Node list")

text \<open>
  The libraries the manifest checks call. \<open>'y\<close> is whatever \<^verbatim>\<open>YAML.safeLoad\<close>
  returns; \<open>YAML_safeLoad\<close> is \<open>None\<close> where the loader throws, and \<open>truthyTag d\<close>
  is the \<^verbatim>\<open>tag\<close> of a loaded definition \<open>d\<close> when both \<open>d\<close> and \<^verbatim>\<open>d.tag\<close> are truthy
  (the test \<^verbatim>\<open>latestDefinition && latestDefinition.tag\<close>). The code-block map of
  \<^verbatim>\<open>getCodeBlocksAndHeadings\<close> is listed in the order of \<^verbatim>\<open>Object.keys\<close>.
\<close>

record 'y Libs =
  openApiMd_getCodeBlocksAndHeadings :: "Node \<Rightarrow> (string \<times> Node option) list"
  openApiMd_getInputFilesForTag :: "Node \<Rightarrow> string \<Rightarrow> string list option"
  YAML_safeLoad :: "string \<Rightarrow> 'y option"
  truthyTag :: "'y \<Rightarrow> string option"
  String_trim :: "string \<Rightarrow> string"
  String_toLowerCase :: "string \<Rightarrow> string"

text \<open>Truthiness of a \<^verbatim>\<open>string | null\<close>: neither \<^verbatim>\<open>null\<close> nor empty.\<close>

fun truthy :: "string option \<Rightarrow> bool" where
  "truthy None = False"
| "truthy (Some s) = (s \<noteq> [])"

definition isAutoRestMd :: "Node \<Rightarrow> bool" where
  "isAutoRestMd markDown =
     list_ex (\<lambda>v.
        if nodeType v \<noteq> ''block_quote'' then False
        else (case children v of
                [] \<Rightarrow> False
              | p # ps \<Rightarrow>
                  if nodeType p \<noteq> ''paragraph'' then False
                  else (case children p of
                          [] \<Rightarrow> False
                        | t # ts \<Rightarrow>
                            if nodeType t \<noteq> ''text'' then False
                            else literal t = Some ''see https://aka.ms/autorest'')))
       (children markDown)"

text \<open>The wrapper \<^verbatim>\<open>safeLoad\<close> turns an exception of the loader into \<^verbatim>\<open>undefined\<close>;
  \<open>definitionTag\<close> is the test \<^verbatim>\<open>latestDefinition && latestDefinition.tag\<close> on its result.\<close>

definition definitionTag :: "'y Libs \<Rightarrow> string \<Rightarrow> string option" where
  "definitionTag libs content =
     (case YAML_safeLoad libs content of
        None \<Rightarrow> None
      | Some latestDefinition \<Rightarrow> truthyTag libs latestDefinition)"

text \<open>The test of the fallback loop that lets a code block through.\<close>

definition yamlOrJsonBlock :: "'y Libs \<Rightarrow> Node option \<Rightarrow> bool" where
  "yamlOrJsonBlock libs blockOpt =
     (case blockOpt of
        None \<Rightarrow> False
      | Some block \<Rightarrow>
          truthy (info block) \<and> truthy (literal block)
          \<and> String_toLowerCase libs (String_trim libs (the (info block))) \<in> {''yaml'', ''json''})"

fun firstDeclaredTag :: "'y Libs \<Rightarrow> Node option list \<Rightarrow> string option" where
  "firstDeclaredTag libs [] = None"
| "firstDeclaredTag libs (block # rest) =
     (if \<not> yamlOrJsonBlock libs block then firstDeclaredTag libs rest
      else (case definitionTag libs (the (literal (the block))) of
              Some t \<Rightarrow> Some t
            | None \<Rightarrow> firstDeclaredTag libs rest))"

definition getDefaultTag :: "'y Libs \<Rightarrow> Node \<Rightarrow> string option" where
  "getDefaultTag libs markDown =
     (let codeBlockMap = openApiMd_getCodeBlocksAndHeadings libs markDown;
          fromHeader =
            (case map_of codeBlockMap ''Basic Information'' of
               Some (Some headerBlock) \<Rightarrow>
                 if truthy (literal headerBlock)
                 then definitionTag libs (the (literal headerBlock))
                 else None
             | _ \<Rightarrow> None)
      in case fromHeader of
           Some t \<Rightarrow> Some t
         | None \<Rightarrow> firstDeclaredTag libs (map snd codeBlockMap))"

text \<open>The loop of \<^verbatim>\<open>isContainsMultiVersion\<close> over the input files, with the set
  \<^verbatim>\<open>versions\<close> collected so far.\<close>

fun versionsLoop :: "string list \<Rightarrow> string set \<Rightarrow> bool" where
  "versionsLoop [] versions = False"
| "versionsLoop (file # rest) versions =
     (case getVersionFromInputFile file of
        None \<Rightarrow> versionsLoop rest versions
      | Some version \<Rightarrow>
          if version = [] then versionsLoop rest versions
          else if card (insert version versions) > 1 then True
          else versionsLoop rest (insert version versions))"

definition isContainsMultiVersion :: "'y Libs \<Rightarrow> Node \<Rightarrow> bool" where
  "isContainsMultiVersion libs markDown =
     (case getDefaultTag libs markDown of
        None \<Rightarrow> False
      | Some defaultTag \<Rightarrow>
          if defaultTag = [] then False
          else (case openApiMd_getInputFilesForTag libs markDown defaultTag of
                  None \<Rightarrow> False
                | Some inputFiles \<Rightarrow> versionsLoop inputFiles {}))"

text \<open>\<^verbatim>\<open>validateReadMeFile\<close>, from the parsed manifest on.\<close>

definition validateReadMeFile :: "'y Libs \<Rightarrow> string \<Rightarrow> Node \<Rightarrow> Error list" where
  "validateReadMeFile libs readMe markDown =
     (if \<not> isAutoRestMd markDown
      then [\<lparr>body = NotAutorestMarkdown readMe
                      ''http://azure.github.io/autorest/user/literate-file-formats/configuration.html#the-file-format'',
             message = ''The `readme.md` is not an AutoRest markdown file.'',
             level = Error,
             Error.path = readMe\<rparr>]
      else [])
     @ (if isContainsMultiVersion libs markDown
        then [\<lparr>body = MultipleApiVersion readMe (getDefaultTag libs markDown),
               message = ''The default tag contains multiple API versions swaggers.'',
               level = Warning,
               Error.path = readMe\<rparr>]
        else [])"

section \<open>Correlation keys and the result map of a run\<close>

text \<open>The object \<^verbatim>\<open>toObject()\<close> builds: \<^verbatim>\<open>{code, url}\<close>, and for a parse error
  \<^verbatim>\<open>{code, url, position}\<close>.\<close>

datatype Projection =
    CodeUrl Code string
  | CodeUrlPosition Code string FilePosition

definition toObject :: "Error \<Rightarrow> Projection" where
  "toObject e =
     (case body e of
        UnreferencedJsonFile r j \<Rightarrow> CodeUrl (code e) j
      | NoJsonFileFound r j \<Rightarrow> CodeUrl (code e) r
      | NotAutorestMarkdown r h \<Rightarrow> CodeUrl (code e) r
      | JsonParse pe \<Rightarrow> CodeUrlPosition (code e) (ParseError.url pe) (position pe)
      | CircularReference r j \<Rightarrow> CodeUrl (code e) j
      | MissingReadme f \<Rightarrow> CodeUrl (code e) f
      | InconsistentApiVersion j r \<Rightarrow> CodeUrl (code e) j
      | MultipleApiVersion r t \<Rightarrow> CodeUrl (code e) r
      | InvalidFileLocation j r \<Rightarrow> CodeUrl (code e) j)"

text \<open>\<open>hash\<close> is \<^verbatim>\<open>nodeObjectHash().hash\<close>.\<close>

definition errorCorrelationId :: "(Projection \<Rightarrow> string) \<Rightarrow> Error \<Rightarrow> string" where
  "errorCorrelationId hash e = hash (toObject e)"

text \<open>
  A JavaScript \<^verbatim>\<open>Map\<close> is a list of entries with distinct keys in insertion
  order: \<^verbatim>\<open>set\<close> is \<^const>\<open>AList.update\<close>, \<^verbatim>\<open>get\<close> is \<^const>\<open>map_of\<close>,
  \<^verbatim>\<open>delete\<close> is \<^const>\<open>AList.delete\<close>.

  \<^verbatim>\<open>exclude.some(item => v.path.search(item) !== -1)\<close>: \<open>search\<close> is
  \<^verbatim>\<open>String.prototype.search\<close> with the subject first and the pattern second; it
  compiles the pattern to a regular expression and raises a SyntaxError when the
  pattern is not one.
\<close>

fun someSearch :: "(string \<Rightarrow> string \<Rightarrow> Exn + int) \<Rightarrow> string \<Rightarrow> string list \<Rightarrow> Exn + bool" where
  "someSearch search subject [] = Inr False"
| "someSearch search subject (item # items) =
     (case search subject item of
        Inl x \<Rightarrow> Inl x
      | Inr i \<Rightarrow> if i \<noteq> -1 then Inr True else someSearch search subject items)"

text \<open>The loop \<^verbatim>\<open>for (const [k, v] of map)\<close> of \<^verbatim>\<open>avocadoForDir\<close>: the entries still
  to visit, and the map as it stands.\<close>

fun excludeLoop ::
  "(string \<Rightarrow> string \<Rightarrow> Exn + int) \<Rightarrow> string list \<Rightarrow> (string \<times> Error) list
     \<Rightarrow> (string \<times> Error) list \<Rightarrow> Exn + (string \<times> Error) list"
where
  "excludeLoop search exclude [] m = Inr m"
| "excludeLoop search exclude (kv # rest) m =
     (case someSearch search (Error.path (snd kv)) exclude of
        Inl x \<Rightarrow> Inl x
      | Inr hit \<Rightarrow>
          excludeLoop search exclude rest (if hit then AList.delete (fst kv) m else m))"

text \<open>
  \<^verbatim>\<open>avocadoForDir(dir, exclude)\<close>. \<open>validateFolder dir\<close> is the stream of findings
  that the validation of the folder yields, or the exception that ends it.
\<close>

definition avocadoForDir ::
  "(Projection \<Rightarrow> string) \<Rightarrow> (string \<Rightarrow> string \<Rightarrow> Exn + int) \<Rightarrow> (string \<Rightarrow> bool)
     \<Rightarrow> (string \<Rightarrow> Exn + Error list) \<Rightarrow> string \<Rightarrow> string list \<Rightarrow> Exn + (string \<times> Error) list"
where
  "avocadoForDir hash search existsSync validateFolder dir exclude =
     (case (if existsSync dir
            then (case validateFolder dir of
                    Inl x \<Rightarrow> Inl x
                  | Inr es \<Rightarrow>
                      Inr (foldl (\<lambda>m e. AList.update (errorCorrelationId hash e) e m) [] es))
            else Inr []) of
        Inl x \<Rightarrow> Inl x
      | Inr m \<Rightarrow> excludeLoop search exclude m m)"

section \<open>Comparing two runs\<close>






section \<open>Auxiliary notions for the proofs\<close>

text \<open>Names for the pieces of \<^const>\<open>DFSTraversalValidate\<close> and \<^const>\<open>refLoop\<close>.\<close>

definition enter :: "Specification \<Rightarrow> Walk \<Rightarrow> Walk" where
  "enter current w =
     (if Specification.path current \<notin> blackSet w
      then w\<lparr>graySet := insert (Specification.path current) (graySet w)\<rparr> else w)"

text \<open>What the two rules yield for a node, or the exception that one of them
  raises.\<close>

definition ruleOutcome :: "Env \<Rightarrow> Specification \<Rightarrow> Json \<Rightarrow> Exn + Error list" where
  "ruleOutcome env current document =
     (if kind current = SWAGGER \<and> document \<noteq> JNull
      then (case validateSpecificationAPIVersion env current document of
              Inl x \<Rightarrow> Inl x
            | Inr vs \<Rightarrow>
                (case validateFileLocation current document of
                   Inl x \<Rightarrow> Inl x
                 | Inr ls \<Rightarrow> Inr (vs @ ls)))
      else Inr [])"

definition targets :: "Env \<Rightarrow> Specification \<Rightarrow> Json \<Rightarrow> string list" where
  "targets env current document =
     (if kind current = SWAGGER
      then getReferencedFileNames env (Specification.path current) document else [])"

definition backEdge :: "Specification \<Rightarrow> string \<Rightarrow> Walk \<Rightarrow> Walk" where
  "backEdge current t w =
     (if t \<in> graySet w then moveToBlack t (yield [circularReference current] w) else w)"

definition childSpec :: "Env \<Rightarrow> Specification \<Rightarrow> string \<Rightarrow> Specification" where
  "childSpec env current t =
     \<lparr>Specification.path = t, readMePath = readMePath current,
      kind = (if isExample env t then EXAMPLE else SWAGGER)\<rparr>"

text \<open>The paths that are gray or black.\<close>

definition colored :: "Walk \<Rightarrow> string set" where
  "colored w = graySet w \<union> blackSet w"

text \<open>The outbound references of the file at a path, read as a swagger file;
  none when the file cannot be read.\<close>

definition refsOfFile :: "Env \<Rightarrow> string \<Rightarrow> string list" where
  "refsOfFile env p =
     (case readFile env p of
        None \<Rightarrow> []
      | Some content \<Rightarrow> getReferencedFileNames env p (snd (jsonParse env p content)))"

text \<open>A set of paths that contains every reference of each of its files.\<close>

definition closed :: "Env \<Rightarrow> string set \<Rightarrow> bool" where
  "closed env U = (\<forall>p\<in>U. set (refsOfFile env p) \<subseteq> U)"

text \<open>The roots together with every path that some readable file refers to.\<close>

definition universe :: "Env \<Rightarrow> string set \<Rightarrow> string set" where
  "universe env roots =
     roots \<union> (\<Union>pf \<in> set (files env).
                 set (getReferencedFileNames env (fst pf) (snd (jsonParse env (fst pf) (snd pf)))))"

text \<open>The finding of the version rule.\<close>

definition inconsistentApiVersion :: "Specification \<Rightarrow> Error" where
  "inconsistentApiVersion current =
     \<lparr>body = InconsistentApiVersion (Specification.path current) (readMePath current),
      message = ''The API version of the swagger is inconsistent with its file path.'',
      level = Error,
      Error.path = Specification.path current\<rparr>"

text \<open>The codes of the findings that the walker yields, and the relation between a
  walk and a later one that has yielded more of them.\<close>

definition walkerCodes :: "Code set" where
  "walkerCodes = {NO_JSON_FILE_FOUND, JSON_PARSE, INCONSISTENT_API_VERSION,
                  INVALID_FILE_LOCATION, CIRCULAR_REFERENCE}"

definition extends :: "Walk \<Rightarrow> Walk \<Rightarrow> bool" where
  "extends w w' = (\<exists>es. emitted w' = emitted w @ es \<and> code ` set es \<subseteq> walkerCodes)"

text \<open>The tag of the code block under the heading \<^verbatim>\<open>Basic Information\<close>; a code
  block that the fallback loop lets through and that declares a tag; the versions
  that \<^const>\<open>getVersionFromInputFile\<close> extracts from a list of input files.\<close>

definition basicInformationTag :: "'y Libs \<Rightarrow> Node \<Rightarrow> string option" where
  "basicInformationTag libs markDown =
     (case map_of (openApiMd_getCodeBlocksAndHeadings libs markDown) ''Basic Information'' of
        Some (Some headerBlock) \<Rightarrow>
          if truthy (literal headerBlock) then definitionTag libs (the (literal headerBlock)) else None
      | _ \<Rightarrow> None)"

definition declaresTag :: "'y Libs \<Rightarrow> Node option \<Rightarrow> bool" where
  "declaresTag libs block =
     (yamlOrJsonBlock libs block \<and> definitionTag libs (the (literal (the block))) \<noteq> None)"

definition extractedVersions :: "string list \<Rightarrow> string set" where
  "extractedVersions inputFiles = {v. \<exists>f\<in>set inputFiles. getVersionFromInputFile f = Some v}"

section \<open>Example inputs\<close>

text \<open>Concrete inputs on which the theorems below are instantiated.\<close>

definition exampleHash :: "Projection \<Rightarrow> string" where
  "exampleHash p = (case p of CodeUrl c u \<Rightarrow> ''u:'' @ u | CodeUrlPosition c u pos \<Rightarrow> ''p:'' @ u)"

definition fooSpec :: Specification where
  "fooSpec = \<lparr>Specification.path = ''/specification/foo/stable/2021-01-01/foo.json'',
              readMePath = ''/specification/foo/readme.md'', kind = SWAGGER\<rparr>"

text \<open>A stand-in for \<^verbatim>\<open>String.prototype.search\<close>: plain containment, and one
  pattern that does not compile.\<close>

definition exampleSearch :: "string \<Rightarrow> string \<Rightarrow> Exn + int" where
  "exampleSearch subject item =
     (if item = ''('' then Inl SyntaxError
      else if includesStr subject item then Inr 0 else Inr (-1))"

definition commonFinding :: Error where
  "commonFinding = unreferencedJsonFile
     \<lparr>Specification.path = ''/spec/common/types.json'', readMePath = ''/spec/readme.md'', kind = SWAGGER\<rparr>"

definition fooFinding :: Error where
  "fooFinding = circularReference
     \<lparr>Specification.path = ''/spec/foo/foo.json'', readMePath = ''/spec/readme.md'', kind = SWAGGER\<rparr>"

text \<open>
  A stand-in for the JSON parser: the content of a file is the comma-separated
  list of its \<^verbatim>\<open>$ref\<close> values. Paths resolve against the directory \<^verbatim>\<open>/spec\<close>.
  No document of this parser holds an object that inherits from an array.
\<close>

definition exampleParse :: "string \<Rightarrow> string \<Rightarrow> ParseError list \<times> Json" where
  "exampleParse fileName content =
     ([], JArray (map (\<lambda>r. JObject ObjectPrototype [(''$ref'', JString r)]) (split (CHR '','') content)))"

definition exampleEnv :: "(string \<times> string) list \<Rightarrow> Env" where
  "exampleEnv fs =
     \<lparr>files = fs, jsonParser_parse = exampleParse,
      path_dirname = (\<lambda>p. ''/spec''), path_join = (\<lambda>d u. d @ ''/'' @ u),
      path_resolve = (\<lambda>p. p), path_sep = CHR ''/'',
      Array_prototype_toString = (\<lambda>j. Inl TypeError)\<rparr>"

definition swaggerSpec :: "string \<Rightarrow> Specification" where
  "swaggerSpec p = \<lparr>Specification.path = p, readMePath = ''/spec/readme.md'', kind = SWAGGER\<rparr>"

text \<open>Two files that refer to each other; the same with a third file that the
  first also refers to; two files without references.\<close>

definition cycleEnv :: Env where
  "cycleEnv = exampleEnv [(''/spec/a.json'', ''b.json#/definitions/B''), (''/spec/b.json'', ''a.json'')]"

definition cycleEnv3 :: Env where
  "cycleEnv3 = exampleEnv [(''/spec/a.json'', ''b.json,c.json''), (''/spec/b.json'', ''a.json''),
                           (''/spec/c.json'', '''')]"

text \<open>Two files that refer to each other, read by a parser for which the content
  of a file is its one \<^verbatim>\<open>$ref\<close> value and every document declares a version that
  is an object with an own \<^verbatim>\<open>toString\<close> member:
  \<^verbatim>\<open>{"info": {"version": {"toString": "x"}}, "r": {"$ref": content}}\<close>.\<close>

definition opaqueVersionEnv :: Env where
  "opaqueVersionEnv =
     (exampleEnv [(''/spec/a.json'', ''b.json''), (''/spec/b.json'', ''a.json'')])
       \<lparr>jsonParser_parse := (\<lambda>fileName content.
          ([], JObject ObjectPrototype
                 [(''info'', JObject ObjectPrototype
                    [(''version'', JObject ObjectPrototype [(''toString'', JString ''x'')])]),
                  (''r'', JObject ObjectPrototype [(''$ref'', JString content)])]))\<rparr>"

definition orphanEnv :: Env where
  "orphanEnv = exampleEnv [(''/spec/a.json'', ''''), (''/spec/b.json'', '''')]"

definition walk0 :: Walk where
  "walk0 = \<lparr>emitted = [], graySet = {}, blackSet = {}, thrown = False\<rparr>"

text \<open>
  A manifest with two code blocks, the default tag in the second one, under
  \<^verbatim>\<open>Basic Information\<close>; its input files lie under two versions. The stand-in for
  the YAML loader reads a text \<^verbatim>\<open>tag: t\<close> as the definition with tag \<^verbatim>\<open>t\<close>.
\<close>

definition exampleLibs :: "string Libs" where
  "exampleLibs =
     \<lparr>openApiMd_getCodeBlocksAndHeadings = (\<lambda>markDown.
        [(''Getting Started'', Some (Node ''code_block'' (Some ''tag: package-2019-01'') (Some ''yaml $(x)'') [])),
         (''Basic Information'', Some (Node ''code_block'' (Some ''tag: package-2020-01'') (Some ''yaml'') []))]),
      openApiMd_getInputFilesForTag = (\<lambda>markDown t.
        if t = ''package-2020-01''
        then Some [''Microsoft.Foo/stable/2019-01-01/foo.json'', ''Microsoft.Foo/stable/2020-01-01/foo.json'']
        else None),
      YAML_safeLoad = (\<lambda>content. if startsWith content ''tag: '' then Some (drop 5 content) else None),
      truthyTag = (\<lambda>d. if d = [] then None else Some d),
      String_trim = (\<lambda>s. s),
      String_toLowerCase = (\<lambda>s. s)\<rparr>"

text \<open>The same manifest with other input files for its default tag.\<close>

definition exampleLibsFor :: "string list \<Rightarrow> string Libs" where
  "exampleLibsFor inputFiles =
     exampleLibs\<lparr>openApiMd_getInputFilesForTag := (\<lambda>markDown t. Some inputFiles)\<rparr>"

section \<open>The walker: unfolding and invariants\<close>

text \<open>One step of \<^const>\<open>DFSTraversalValidate\<close> and of \<^const>\<open>refLoop\<close>, in terms of the
  auxiliary notions.\<close>

lemma DFS_Suc:
  "DFSTraversalValidate env (Suc n) current w =
     (case readFile env (Specification.path current) of
        None \<Rightarrow> Some (yield [noJsonFileFound current] (enter current w))
      | Some file \<Rightarrow>
          (case ruleOutcome env current (snd (jsonParse env (Specification.path current) file)) of
             Inl x \<Rightarrow> Some ((yield (fst (jsonParse env (Specification.path current) file)) (enter current w))\<lparr>thrown := True\<rparr>)
           | Inr rs \<Rightarrow>
               (case refLoop (DFSTraversalValidate env n) env current
                       (targets env current (snd (jsonParse env (Specification.path current) file)))
                       (yield rs (yield (fst (jsonParse env (Specification.path current) file)) (enter current w))) of
                  None \<Rightarrow> None
                | Some w4 \<Rightarrow> if thrown w4 then Some w4 else Some (moveToBlack (Specification.path current) w4))))"
  by (auto simp: enter_def ruleOutcome_def targets_def Let_def yield_def validateFileLocation_def
        getProperty_def split: option.splits sum.splits prod.splits)

lemma refLoop_Cons:
  "refLoop dfs env current (t # ts) w =
     (if t \<notin> blackSet (backEdge current t w)
      then (case dfs (childSpec env current t) (backEdge current t w) of
              None \<Rightarrow> None
            | Some w2 \<Rightarrow> if thrown w2 then Some w2 else refLoop dfs env current ts w2)
      else refLoop dfs env current ts (backEdge current t w))"
  by (simp add: backEdge_def childSpec_def Let_def)

declare refLoop.simps(2) [simp del]
declare DFSTraversalValidate.simps(2) [simp del]

lemma sets_yield [simp]:
  "graySet (yield es w) = graySet w" "blackSet (yield es w) = blackSet w"
  "thrown (yield es w) = thrown w" "emitted (yield es w) = emitted w @ es"
  by (simp_all add: yield_def)

lemma sets_moveToBlack [simp]:
  "graySet (moveToBlack k w) = graySet w - {k}" "blackSet (moveToBlack k w) = insert k (blackSet w)"
  "thrown (moveToBlack k w) = thrown w" "emitted (moveToBlack k w) = emitted w"
  by (simp_all add: moveToBlack_def moveTo_def)

lemma sets_enter [simp]:
  "graySet (enter c w) = (if Specification.path c \<in> blackSet w then graySet w else insert (Specification.path c) (graySet w))"
  "blackSet (enter c w) = blackSet w"
  "thrown (enter c w) = thrown w" "emitted (enter c w) = emitted w"
  by (simp_all add: enter_def)

lemma sets_backEdge [simp]:
  "graySet (backEdge c t w) = graySet w - {t}"
  "blackSet (backEdge c t w) = (if t \<in> graySet w then insert t (blackSet w) else blackSet w)"
  "thrown (backEdge c t w) = thrown w"
  by (simp_all add: backEdge_def)

lemma colored_simps [simp]:
  "colored (yield es w) = colored w"
  "colored (enter c w) = insert (Specification.path c) (colored w)"
  "colored (moveToBlack k w) = insert k (colored w)"
  "colored (backEdge c t w) = colored w"
  "colored (w\<lparr>thrown := b\<rparr>) = colored w"
  by (auto simp: colored_def)

lemma childSpec_path [simp]: "Specification.path (childSpec env c t) = t"
  by (simp add: childSpec_def)

subsection \<open>Black and coloured paths only grow\<close>

lemma refLoop_grows:
  assumes dfs: "\<And>s v v'. dfs s v = Some v' \<Longrightarrow> blackSet v \<subseteq> blackSet v' \<and> colored v \<subseteq> colored v'"
  shows "refLoop dfs env cur ts w = Some w' \<Longrightarrow> blackSet w \<subseteq> blackSet w' \<and> colored w \<subseteq> colored w'"
proof (induction ts arbitrary: w)
  case Nil
  then show ?case by simp
next
  case (Cons t ts)
  let ?w1 = "backEdge cur t w"
  have step: "blackSet w \<subseteq> blackSet ?w1 \<and> colored w \<subseteq> colored ?w1" by auto
  show ?case
  proof (cases "t \<notin> blackSet ?w1")
    case False
    with Cons.prems have "refLoop dfs env cur ts ?w1 = Some w'"
      by (simp add: refLoop_Cons)
    from Cons.IH [OF this] step show ?thesis by blast
  next
    case True
    with Cons.prems obtain w2 where w2: "dfs (childSpec env cur t) ?w1 = Some w2"
      and rest: "(thrown w2 \<and> w' = w2) \<or> (\<not> thrown w2 \<and> refLoop dfs env cur ts w2 = Some w')"
      by (auto simp: refLoop_Cons split: option.splits if_splits)
    from dfs [OF w2] have g2: "blackSet ?w1 \<subseteq> blackSet w2 \<and> colored ?w1 \<subseteq> colored w2" .
    from rest show ?thesis
    proof
      assume "thrown w2 \<and> w' = w2"
      with g2 step show ?thesis by blast
    next
      assume "\<not> thrown w2 \<and> refLoop dfs env cur ts w2 = Some w'"
      then have "blackSet w2 \<subseteq> blackSet w' \<and> colored w2 \<subseteq> colored w'"
        using Cons.IH by blast
      with g2 step show ?thesis by blast
    qed
  qed
qed

lemma DFS_grows:
  "DFSTraversalValidate env n cur w = Some w' \<Longrightarrow>
     blackSet w \<subseteq> blackSet w' \<and> colored w \<subseteq> colored w' \<and> Specification.path cur \<in> colored w'"
proof (induction n arbitrary: cur w w')
  case 0
  then show ?case by simp
next
  case (Suc n)
  have ih: "\<And>s v v'. DFSTraversalValidate env n s v = Some v' \<Longrightarrow>
              blackSet v \<subseteq> blackSet v' \<and> colored v \<subseteq> colored v'"
    using Suc.IH by blast
  show ?case
  proof (cases "readFile env (Specification.path cur)")
    case None
    with Suc.prems show ?thesis by (auto simp: DFS_Suc)
  next
    case (Some content)
    let ?doc = "snd (jsonParse env (Specification.path cur) content)"
    let ?errs = "fst (jsonParse env (Specification.path cur) content)"
    show ?thesis
    proof (cases "ruleOutcome env cur ?doc")
      case (Inl x)
      with Some Suc.prems show ?thesis by (auto simp: DFS_Suc)
    next
      case (Inr rs)
      let ?w3 = "yield rs (yield ?errs (enter cur w))"
      from Some Inr Suc.prems obtain w4 where
        loop: "refLoop (DFSTraversalValidate env n) env cur (targets env cur ?doc) ?w3 = Some w4"
        and fin: "w' = (if thrown w4 then w4 else moveToBlack (Specification.path cur) w4)"
        by (auto simp: DFS_Suc split: option.splits if_splits)
      have "blackSet ?w3 \<subseteq> blackSet w4 \<and> colored ?w3 \<subseteq> colored w4"
        by (rule refLoop_grows [where dfs = "DFSTraversalValidate env n", OF _ loop]) (rule ih)
      with fin show ?thesis by (auto split: if_splits)
    qed
  qed
qed


subsection \<open>Enough fuel\<close>

lemma refLoop_returns:
  assumes fin: "finite U"
    and dfs: "\<And>s v. Specification.path s \<in> U \<Longrightarrow> card (U - colored v - {Specification.path s}) < m
                \<Longrightarrow> \<exists>v'. dfs s v = Some v'"
    and grows: "\<And>s v v'. dfs s v = Some v' \<Longrightarrow> colored v \<subseteq> colored v'"
  shows "set ts \<subseteq> U \<Longrightarrow> card (U - colored w) \<le> m \<Longrightarrow> \<exists>w'. refLoop dfs env cur ts w = Some w'"
proof (induction ts arbitrary: w)
  case Nil
  then show ?case by simp
next
  case (Cons t ts)
  let ?w1 = "backEdge cur t w"
  have c1: "colored ?w1 = colored w" by simp
  show ?case
  proof (cases "t \<in> blackSet ?w1")
    case True
    have "\<exists>w'. refLoop dfs env cur ts ?w1 = Some w'"
      using Cons.IH [of ?w1] Cons.prems c1 by simp
    with True show ?thesis by (simp add: refLoop_Cons)
  next
    case False
    then have "t \<notin> colored w" by (auto simp: colored_def split: if_splits)
    moreover have tU: "t \<in> U" using Cons.prems by simp
    ultimately have "t \<in> U - colored w" by simp
    then have "card (U - colored w - {t}) < card (U - colored w)"
      using fin by (intro card_Diff1_less) auto
    with Cons.prems have "card (U - colored ?w1 - {Specification.path (childSpec env cur t)}) < m"
      by simp
    with dfs [of "childSpec env cur t" ?w1] tU
    obtain w2 where w2: "dfs (childSpec env cur t) ?w1 = Some w2" by auto
    show ?thesis
    proof (cases "thrown w2")
      case True
      with False w2 show ?thesis by (simp add: refLoop_Cons)
    next
      case nt: False
      from grows [OF w2] have "U - colored w2 \<subseteq> U - colored w" by auto
      then have "card (U - colored w2) \<le> card (U - colored w)"
        using fin by (simp add: card_mono)
      with Cons.prems have "card (U - colored w2) \<le> m" by simp
      with Cons.IH [of w2] Cons.prems
      obtain w' where "refLoop dfs env cur ts w2 = Some w'" by auto
      with False w2 nt show ?thesis by (simp add: refLoop_Cons)
    qed
  qed
qed

lemma targets_closed:
  assumes "closed env U" "Specification.path cur \<in> U"
    "readFile env (Specification.path cur) = Some content"
  shows "set (targets env cur (snd (jsonParse env (Specification.path cur) content))) \<subseteq> U"
proof -
  from assms(1,2) have "set (refsOfFile env (Specification.path cur)) \<subseteq> U"
    unfolding closed_def by blast
  with assms(3) show ?thesis
    by (auto simp: refsOfFile_def targets_def)
qed

lemma DFS_returns:
  assumes fin: "finite U" and cl: "closed env U"
  shows "Specification.path cur \<in> U \<Longrightarrow> card (U - colored w - {Specification.path cur}) < n
           \<Longrightarrow> \<exists>w'. DFSTraversalValidate env n cur w = Some w'"
proof (induction n arbitrary: cur w)
  case 0
  then show ?case by simp
next
  case (Suc n)
  show ?case
  proof (cases "readFile env (Specification.path cur)")
    case None
    then show ?thesis by (simp add: DFS_Suc)
  next
    case (Some content)
    let ?doc = "snd (jsonParse env (Specification.path cur) content)"
    let ?errs = "fst (jsonParse env (Specification.path cur) content)"
    show ?thesis
    proof (cases "ruleOutcome env cur ?doc")
      case (Inl x)
      with Some show ?thesis by (simp add: DFS_Suc)
    next
      case (Inr rs)
      let ?w3 = "yield rs (yield ?errs (enter cur w))"
      have sub: "set (targets env cur ?doc) \<subseteq> U"
        using targets_closed [OF cl Suc.prems(1) Some] .
      have "U - colored ?w3 = U - colored w - {Specification.path cur}" by auto
      with Suc.prems have cardw3: "card (U - colored ?w3) \<le> n" by simp
      have "\<exists>w4. refLoop (DFSTraversalValidate env n) env cur (targets env cur ?doc) ?w3 = Some w4"
      proof (rule refLoop_returns [where dfs = "DFSTraversalValidate env n" and U = U and m = n, OF fin _ _ sub cardw3])
        show "\<And>s v. Specification.path s \<in> U \<Longrightarrow> card (U - colored v - {Specification.path s}) < n
                \<Longrightarrow> \<exists>v'. DFSTraversalValidate env n s v = Some v'"
          using Suc.IH by blast
        show "\<And>s v v'. DFSTraversalValidate env n s v = Some v' \<Longrightarrow> colored v \<subseteq> colored v'"
          using DFS_grows by blast
      qed
      then obtain w4 where "refLoop (DFSTraversalValidate env n) env cur (targets env cur ?doc) ?w3 = Some w4" ..
      with Some Inr show ?thesis by (simp add: DFS_Suc)
    qed
  qed
qed

lemma universe_finite: "finite R \<Longrightarrow> finite (universe env R)"
  by (simp add: universe_def)

lemma universe_closed: "closed env (universe env R)"
  unfolding closed_def
proof
  fix p assume "p \<in> universe env R"
  show "set (refsOfFile env p) \<subseteq> universe env R"
  proof (cases "readFile env p")
    case None
    then show ?thesis by (simp add: refsOfFile_def)
  next
    case (Some content)
    then have "(p, content) \<in> set (files env)"
      by (simp add: readFile_def map_of_SomeD)
    then have "set (getReferencedFileNames env p (snd (jsonParse env p content))) \<subseteq> universe env R"
      by (force simp: universe_def)
    with Some show ?thesis by (simp add: refsOfFile_def)
  qed
qed

lemma DFS_enough_fuel:
  "\<exists>N. \<forall>k. \<exists>w'. DFSTraversalValidate env (N + k) cur w = Some w'"
proof -
  let ?U = "universe env {Specification.path cur}"
  have fin: "finite ?U" by (simp add: universe_finite)
  have mem: "Specification.path cur \<in> ?U" by (simp add: universe_def)
  have "\<forall>k. \<exists>w'. DFSTraversalValidate env (Suc (card ?U) + k) cur w = Some w'"
  proof
    fix k
    have "card (?U - colored w - {Specification.path cur}) \<le> card ?U"
      by (rule card_mono [OF fin]) auto
    then have "card (?U - colored w - {Specification.path cur}) < Suc (card ?U) + k" by simp
    from DFS_returns [OF fin universe_closed mem this]
    show "\<exists>w'. DFSTraversalValidate env (Suc (card ?U) + k) cur w = Some w'" .
  qed
  then show ?thesis by blast
qed

lemma walkRoots_returns:
  assumes fin: "finite U" and cl: "closed env U" and n: "card U < n"
  shows "Specification.path ` set roots \<subseteq> U \<Longrightarrow> \<exists>w'. walkRoots env n roots w = Some w'"
proof (induction roots arbitrary: w)
  case Nil
  then show ?case by simp
next
  case (Cons r roots)
  have "card (U - colored w - {Specification.path r}) \<le> card U"
    by (rule card_mono [OF fin]) auto
  with n have "card (U - colored w - {Specification.path r}) < n" by simp
  with DFS_returns [OF fin cl, of r w n] Cons.prems
  obtain w1 where w1: "DFSTraversalValidate env n r w = Some w1" by auto
  from Cons.IH [of w1] Cons.prems obtain w' where "walkRoots env n roots w1 = Some w'" by auto
  with w1 show ?case by simp
qed

lemma validateInputFiles_enough_fuel:
  "\<exists>N. \<forall>k. \<exists>r. validateInputFiles env (N + k) roots allFiles = Some r"
proof -
  let ?U = "universe env (Specification.path ` set roots)"
  have fin: "finite ?U" by (simp add: universe_finite)
  have sub: "Specification.path ` set roots \<subseteq> ?U" by (simp add: universe_def)
  have "\<forall>k. \<exists>r. validateInputFiles env (Suc (card ?U) + k) roots allFiles = Some r"
  proof
    fix k
    have "card ?U < Suc (card ?U) + k" by simp
    from walkRoots_returns [OF fin universe_closed this sub]
    obtain w' where "walkRoots env (Suc (card ?U) + k) roots
        \<lparr>emitted = [], graySet = {}, blackSet = {}, thrown = False\<rparr> = Some w'" by blast
    then show "\<exists>r. validateInputFiles env (Suc (card ?U) + k) roots allFiles = Some r"
      by (simp add: validateInputFiles_def)
  qed
  then show ?thesis by blast
qed


subsection \<open>Gray paths\<close>

lemma refLoop_gray:
  assumes dfs: "\<And>s v v'. Specification.path s \<in> U \<Longrightarrow> dfs s v = Some v' \<Longrightarrow> \<not> thrown v'
                  \<Longrightarrow> graySet v' \<subseteq> graySet v - {Specification.path s}"
  shows "set ts \<subseteq> U \<Longrightarrow> refLoop dfs env cur ts w = Some w' \<Longrightarrow> \<not> thrown w'
           \<Longrightarrow> graySet w' \<subseteq> graySet w"
proof (induction ts arbitrary: w)
  case Nil
  then show ?case by simp
next
  case (Cons t ts)
  let ?w1 = "backEdge cur t w"
  have step: "graySet ?w1 \<subseteq> graySet w" by auto
  show ?case
  proof (cases "t \<notin> blackSet ?w1")
    case False
    with Cons.prems have "refLoop dfs env cur ts ?w1 = Some w'"
      by (simp add: refLoop_Cons)
    with Cons.IH [of ?w1] Cons.prems step show ?thesis by auto
  next
    case True
    with Cons.prems obtain w2 where w2: "dfs (childSpec env cur t) ?w1 = Some w2"
      and rest: "(thrown w2 \<and> w' = w2) \<or> (\<not> thrown w2 \<and> refLoop dfs env cur ts w2 = Some w')"
      by (auto simp: refLoop_Cons split: option.splits if_splits)
    from rest Cons.prems have nt: "\<not> thrown w2" and loop: "refLoop dfs env cur ts w2 = Some w'"
      by auto
    from dfs [OF _ w2 nt] Cons.prems have "graySet w2 \<subseteq> graySet ?w1" by auto
    moreover from Cons.IH [OF _ loop] Cons.prems have "graySet w' \<subseteq> graySet w2" by auto
    ultimately show ?thesis using step by blast
  qed
qed

lemma DFS_gray:
  assumes cl: "closed env U" and rd: "\<forall>p\<in>U. readFile env p \<noteq> None"
  shows "Specification.path cur \<in> U \<Longrightarrow> DFSTraversalValidate env n cur w = Some w' \<Longrightarrow> \<not> thrown w'
           \<Longrightarrow> graySet w' \<subseteq> graySet w - {Specification.path cur} \<and> Specification.path cur \<in> blackSet w'"
proof (induction n arbitrary: cur w w')
  case 0
  then show ?case by simp
next
  case (Suc n)
  from rd Suc.prems(1) obtain content where rf: "readFile env (Specification.path cur) = Some content"
    by auto
  let ?doc = "snd (jsonParse env (Specification.path cur) content)"
  let ?errs = "fst (jsonParse env (Specification.path cur) content)"
  show ?case
  proof (cases "ruleOutcome env cur ?doc")
    case (Inl x)
    with rf Suc.prems show ?thesis by (auto simp: DFS_Suc)
  next
    case (Inr rs)
    let ?w3 = "yield rs (yield ?errs (enter cur w))"
    from rf Inr Suc.prems obtain w4 where
      loop: "refLoop (DFSTraversalValidate env n) env cur (targets env cur ?doc) ?w3 = Some w4"
      and fin: "w' = (if thrown w4 then w4 else moveToBlack (Specification.path cur) w4)"
      by (auto simp: DFS_Suc split: option.splits if_splits)
    from fin Suc.prems have nt: "\<not> thrown w4" and w': "w' = moveToBlack (Specification.path cur) w4"
      by (auto split: if_splits)
    have sub: "set (targets env cur ?doc) \<subseteq> U"
      using targets_closed [OF cl Suc.prems(1) rf] .
    have "graySet w4 \<subseteq> graySet ?w3"
    proof (rule refLoop_gray [where dfs = "DFSTraversalValidate env n" and U = U, OF _ sub loop nt])
      show "\<And>s v v'. Specification.path s \<in> U \<Longrightarrow> DFSTraversalValidate env n s v = Some v'
              \<Longrightarrow> \<not> thrown v' \<Longrightarrow> graySet v' \<subseteq> graySet v - {Specification.path s}"
        using Suc.IH by blast
    qed
    with w' show ?thesis by (auto split: if_splits)
  qed
qed

lemma refLoop_disjoint:
  assumes dfs: "\<And>s v v'. dfs s v = Some v' \<Longrightarrow> graySet v \<inter> blackSet v = {}
                  \<Longrightarrow> graySet v' \<inter> blackSet v' = {}"
  shows "refLoop dfs env cur ts w = Some w' \<Longrightarrow> graySet w \<inter> blackSet w = {}
           \<Longrightarrow> graySet w' \<inter> blackSet w' = {}"
proof (induction ts arbitrary: w)
  case Nil
  then show ?case by simp
next
  case (Cons t ts)
  let ?w1 = "backEdge cur t w"
  have step: "graySet ?w1 \<inter> blackSet ?w1 = {}" using Cons.prems(2) by auto
  show ?case
  proof (cases "t \<notin> blackSet ?w1")
    case False
    with Cons.prems have "refLoop dfs env cur ts ?w1 = Some w'"
      by (simp add: refLoop_Cons)
    from Cons.IH [OF this step] show ?thesis .
  next
    case True
    with Cons.prems obtain w2 where w2: "dfs (childSpec env cur t) ?w1 = Some w2"
      and rest: "(thrown w2 \<and> w' = w2) \<or> (\<not> thrown w2 \<and> refLoop dfs env cur ts w2 = Some w')"
      by (auto simp: refLoop_Cons split: option.splits if_splits)
    from dfs [OF w2 step] have d2: "graySet w2 \<inter> blackSet w2 = {}" .
    from rest show ?thesis
    proof
      assume "thrown w2 \<and> w' = w2"
      with d2 show ?thesis by simp
    next
      assume "\<not> thrown w2 \<and> refLoop dfs env cur ts w2 = Some w'"
      with Cons.IH [of w2] d2 show ?thesis by blast
    qed
  qed
qed

lemma DFS_disjoint:
  "DFSTraversalValidate env n cur w = Some w' \<Longrightarrow> graySet w \<inter> blackSet w = {}
     \<Longrightarrow> graySet w' \<inter> blackSet w' = {}"
proof (induction n arbitrary: cur w w')
  case 0
  then show ?case by simp
next
  case (Suc n)
  have e: "graySet (enter cur w) \<inter> blackSet (enter cur w) = {}"
    using Suc.prems(2) by auto
  show ?case
  proof (cases "readFile env (Specification.path cur)")
    case None
    with Suc.prems e show ?thesis by (auto simp: DFS_Suc)
  next
    case (Some content)
    let ?doc = "snd (jsonParse env (Specification.path cur) content)"
    let ?errs = "fst (jsonParse env (Specification.path cur) content)"
    show ?thesis
    proof (cases "ruleOutcome env cur ?doc")
      case (Inl x)
      with Some Suc.prems e show ?thesis by (auto simp: DFS_Suc)
    next
      case (Inr rs)
      let ?w3 = "yield rs (yield ?errs (enter cur w))"
      from Some Inr Suc.prems obtain w4 where
        loop: "refLoop (DFSTraversalValidate env n) env cur (targets env cur ?doc) ?w3 = Some w4"
        and fin: "w' = (if thrown w4 then w4 else moveToBlack (Specification.path cur) w4)"
        by (auto simp: DFS_Suc split: option.splits if_splits)
      have e3: "graySet ?w3 \<inter> blackSet ?w3 = {}" using e by simp
      have "graySet w4 \<inter> blackSet w4 = {}"
      proof (rule refLoop_disjoint [where dfs = "DFSTraversalValidate env n", OF _ loop e3])
        show "\<And>s v v'. DFSTraversalValidate env n s v = Some v' \<Longrightarrow> graySet v \<inter> blackSet v = {}
                \<Longrightarrow> graySet v' \<inter> blackSet v' = {}"
          using Suc.IH by blast
      qed
      with fin show ?thesis by (auto split: if_splits)
    qed
  qed
qed

section \<open>The walker: findings, termination and colours\<close>

subsection \<open>Findings of the walker\<close>



lemma extends_refl [simp]: "extends w w"
  by (simp add: extends_def)

lemma extends_trans: "extends w w1 \<Longrightarrow> extends w1 w2 \<Longrightarrow> extends w w2"
  by (fastforce simp: extends_def)

lemma extends_yield: "code ` set es \<subseteq> walkerCodes \<Longrightarrow> extends w (yield es w)"
  by (auto simp: extends_def)

lemma extends_frame [simp]:
  "extends w (moveToBlack k w')  = extends w w'"
  "extends w (enter c w') = extends w w'"
  "extends w (w'\<lparr>thrown := b\<rparr>) = extends w w'"
  by (simp_all add: extends_def enter_def)

lemma jsonParse_codes: "code ` set (fst (jsonParse env p content)) \<subseteq> walkerCodes"
  by (auto simp: jsonParse_def code_def walkerCodes_def split: prod.splits)

lemma ruleOutcome_codes: "ruleOutcome env s d = Inr rs \<Longrightarrow> code ` set rs \<subseteq> walkerCodes"
  by (auto simp: ruleOutcome_def validateSpecificationAPIVersion_def validateFileLocation_def
        getProperty_def code_def walkerCodes_def split: if_splits option.splits sum.splits)

lemma backEdge_extends: "extends w (backEdge c t w)"
  by (auto simp: backEdge_def intro!: extends_yield simp: circularReference_def code_def walkerCodes_def)

lemma refLoop_extends:
  assumes dfs: "\<And>s v v'. dfs s v = Some v' \<Longrightarrow> extends v v'"
  shows "refLoop dfs env cur ts w = Some w' \<Longrightarrow> extends w w'"
proof (induction ts arbitrary: w)
  case Nil
  then show ?case by simp
next
  case (Cons t ts)
  let ?w1 = "backEdge cur t w"
  have step: "extends w ?w1" by (rule backEdge_extends)
  show ?case
  proof (cases "t \<notin> blackSet ?w1")
    case False
    with Cons.prems have "refLoop dfs env cur ts ?w1 = Some w'"
      by (simp add: refLoop_Cons)
    from Cons.IH [OF this] step show ?thesis by (blast intro: extends_trans)
  next
    case True
    with Cons.prems obtain w2 where w2: "dfs (childSpec env cur t) ?w1 = Some w2"
      and rest: "(thrown w2 \<and> w' = w2) \<or> (\<not> thrown w2 \<and> refLoop dfs env cur ts w2 = Some w')"
      by (auto simp: refLoop_Cons split: option.splits if_splits)
    from dfs [OF w2] step have e2: "extends w w2" by (blast intro: extends_trans)
    from rest show ?thesis
    proof
      assume "thrown w2 \<and> w' = w2"
      with e2 show ?thesis by simp
    next
      assume "\<not> thrown w2 \<and> refLoop dfs env cur ts w2 = Some w'"
      then have "extends w2 w'" using Cons.IH by blast
      with e2 show ?thesis by (blast intro: extends_trans)
    qed
  qed
qed

lemma DFS_extends: "DFSTraversalValidate env n cur w = Some w' \<Longrightarrow> extends w w'"
proof (induction n arbitrary: cur w w')
  case 0
  then show ?case by simp
next
  case (Suc n)
  show ?case
  proof (cases "readFile env (Specification.path cur)")
    case None
    with Suc.prems have "w' = yield [noJsonFileFound cur] (enter cur w)" by (simp add: DFS_Suc)
    then show ?thesis
      by (auto simp: extends_def noJsonFileFound_def code_def walkerCodes_def)
  next
    case (Some content)
    let ?doc = "snd (jsonParse env (Specification.path cur) content)"
    let ?errs = "fst (jsonParse env (Specification.path cur) content)"
    have e1: "extends w (yield ?errs (enter cur w))"
      using jsonParse_codes [of env "Specification.path cur" content]
      by (auto simp: extends_def)
    show ?thesis
    proof (cases "ruleOutcome env cur ?doc")
      case (Inl x)
      with Some Suc.prems have "w' = (yield ?errs (enter cur w))\<lparr>thrown := True\<rparr>"
        by (simp add: DFS_Suc)
      with e1 show ?thesis by simp
    next
      case (Inr rs)
      let ?w3 = "yield rs (yield ?errs (enter cur w))"
      from Some Inr Suc.prems obtain w4 where
        loop: "refLoop (DFSTraversalValidate env n) env cur (targets env cur ?doc) ?w3 = Some w4"
        and fin: "w' = (if thrown w4 then w4 else moveToBlack (Specification.path cur) w4)"
        by (auto simp: DFS_Suc split: option.splits if_splits)
      have e3: "extends w ?w3"
        using e1 extends_yield [OF ruleOutcome_codes [OF Inr], of "yield ?errs (enter cur w)"]
        by (blast intro: extends_trans)
      have "extends ?w3 w4"
      proof (rule refLoop_extends [where dfs = "DFSTraversalValidate env n", OF _ loop])
        show "\<And>s v v'. DFSTraversalValidate env n s v = Some v' \<Longrightarrow> extends v v'"
          using Suc.IH by blast
      qed
      with e3 have "extends w w4" by (blast intro: extends_trans)
      with fin show ?thesis by (auto split: if_splits)
    qed
  qed
qed

lemma walkRoots_extends: "walkRoots env n roots w = Some w' \<Longrightarrow> extends w w'"
proof (induction roots arbitrary: w)
  case Nil
  then show ?case by simp
next
  case (Cons r roots)
  from Cons.prems obtain w1 where w1: "DFSTraversalValidate env n r w = Some w1"
    and rest: "(thrown w1 \<and> w' = w1) \<or> (\<not> thrown w1 \<and> walkRoots env n roots w1 = Some w')"
    by (auto split: option.splits if_splits)
  from DFS_extends [OF w1] have "extends w w1" .
  with rest Cons.IH show ?case by (blast intro: extends_trans)
qed

subsection \<open>Orphan files\<close>

text \<open>
  Claim C5. When \<^const>\<open>validateInputFiles\<close> completes, its findings are those of the
  walker over the roots followed by one \<^verbatim>\<open>UNREFERENCED_JSON_FILE\<close> finding for each
  Specification of \<open>allInputFileSet\<close>, in order, whose path is not in the black set
  the walker ended with. The walker itself yields no finding of that code, so
  these are all of them: none for a path in the black set. Each has severity
  Error, and its message speaks of a swagger or of an example file by the kind.
\<close>

theorem validateInputFiles_unreferenced:
  "validateInputFiles env fuel inputFileSet allInputFileSet = Some w \<and> \<not> thrown w \<longrightarrow>
     (\<exists>w0. walkRoots env fuel inputFileSet
              \<lparr>emitted = [], graySet = {}, blackSet = {}, thrown = False\<rparr> = Some w0
        \<and> blackSet w = blackSet w0
        \<and> emitted w = emitted w0
            @ map unreferencedJsonFile
                (filter (\<lambda>spec. Specification.path spec \<notin> blackSet w0) allInputFileSet))
     \<and> filter (\<lambda>e. code e = UNREFERENCED_JSON_FILE) (emitted w)
         = map unreferencedJsonFile
             (filter (\<lambda>spec. Specification.path spec \<notin> blackSet w) allInputFileSet)
     \<and> (\<forall>spec. code (unreferencedJsonFile spec) = UNREFERENCED_JSON_FILE
           \<and> level (unreferencedJsonFile spec) = Error
           \<and> Error.path (unreferencedJsonFile spec) = Specification.path spec
           \<and> message (unreferencedJsonFile spec)
               = (if kind spec = SWAGGER
                  then ''The swagger JSON file is not referenced from the readme file.''
                  else ''The example JSON file is not referenced from the swagger file.''))"
proof
  assume a: "validateInputFiles env fuel inputFileSet allInputFileSet = Some w \<and> \<not> thrown w"
  let ?init = "\<lparr>emitted = [], graySet = {}, blackSet = {}, thrown = False\<rparr>"
  let ?orphans = "\<lambda>B. map unreferencedJsonFile
                (filter (\<lambda>spec. Specification.path spec \<notin> B) allInputFileSet)"
  from a obtain w0 where w0: "walkRoots env fuel inputFileSet ?init = Some w0"
    and w: "w = yield (?orphans (blackSet w0)) w0"
    by (auto simp: validateInputFiles_def split: option.splits if_splits)
  from walkRoots_extends [OF w0] obtain es where
    es: "emitted w0 = es" "code ` set es \<subseteq> walkerCodes"
    by (auto simp: extends_def)
  have none: "filter (\<lambda>e. code e = UNREFERENCED_JSON_FILE) (emitted w0) = []"
    using es by (auto simp: filter_empty_conv walkerCodes_def)
  have all: "filter (\<lambda>e. code e = UNREFERENCED_JSON_FILE) (?orphans (blackSet w0)) = ?orphans (blackSet w0)"
    by (auto simp: filter_id_conv unreferencedJsonFile_def code_def)
  have f: "filter (\<lambda>e. code e = UNREFERENCED_JSON_FILE) (emitted w) = ?orphans (blackSet w)"
    using w none all by simp
  have props: "\<forall>spec. code (unreferencedJsonFile spec) = UNREFERENCED_JSON_FILE
           \<and> level (unreferencedJsonFile spec) = Error
           \<and> Error.path (unreferencedJsonFile spec) = Specification.path spec
           \<and> message (unreferencedJsonFile spec)
               = (if kind spec = SWAGGER
                  then ''The swagger JSON file is not referenced from the readme file.''
                  else ''The example JSON file is not referenced from the swagger file.'')"
    by (simp add: unreferencedJsonFile_def code_def)
  from w0 w have "\<exists>w0. walkRoots env fuel inputFileSet ?init = Some w0
        \<and> blackSet w = blackSet w0
        \<and> emitted w = emitted w0 @ ?orphans (blackSet w0)"
    by simp
  with f props show "(\<exists>w0. walkRoots env fuel inputFileSet ?init = Some w0
        \<and> blackSet w = blackSet w0
        \<and> emitted w = emitted w0 @ ?orphans (blackSet w0))
     \<and> filter (\<lambda>e. code e = UNREFERENCED_JSON_FILE) (emitted w) = ?orphans (blackSet w)
     \<and> (\<forall>spec. code (unreferencedJsonFile spec) = UNREFERENCED_JSON_FILE
           \<and> level (unreferencedJsonFile spec) = Error
           \<and> Error.path (unreferencedJsonFile spec) = Specification.path spec
           \<and> message (unreferencedJsonFile spec)
               = (if kind spec = SWAGGER
                  then ''The swagger JSON file is not referenced from the readme file.''
                  else ''The example JSON file is not referenced from the swagger file.''))"
    by blast
qed

theorem validateInputFiles_unreferenced_witness:
  "validateInputFiles orphanEnv 1 [swaggerSpec ''/spec/a.json'']
       [swaggerSpec ''/spec/a.json'', swaggerSpec ''/spec/b.json'']
     = Some \<lparr>emitted = [unreferencedJsonFile (swaggerSpec ''/spec/b.json'')],
             graySet = {}, blackSet = {''/spec/a.json''}, thrown = False\<rparr>
   \<and> filter (\<lambda>e. code e = UNREFERENCED_JSON_FILE) [unreferencedJsonFile (swaggerSpec ''/spec/b.json'')]
       = map unreferencedJsonFile
           (filter (\<lambda>spec. Specification.path spec \<notin> {''/spec/a.json''})
              [swaggerSpec ''/spec/a.json'', swaggerSpec ''/spec/b.json''])
   \<and> map unreferencedJsonFile
           (filter (\<lambda>spec. Specification.path spec \<notin> {''/spec/a.json''})
              [swaggerSpec ''/spec/a.json'', swaggerSpec ''/spec/b.json''])
       = [unreferencedJsonFile (swaggerSpec ''/spec/b.json'')]"
proof -
  let ?R = "\<lparr>emitted = [unreferencedJsonFile (swaggerSpec ''/spec/b.json'')],
             graySet = {}, blackSet = {''/spec/a.json''}, thrown = False\<rparr>"
  let ?all = "[swaggerSpec ''/spec/a.json'', swaggerSpec ''/spec/b.json'']"
  have run: "validateInputFiles orphanEnv 1 [swaggerSpec ''/spec/a.json''] ?all = Some ?R"
    by code_simp
  have nt: "\<not> thrown ?R" by simp
  from validateInputFiles_unreferenced
         [where env = orphanEnv and fuel = 1 and inputFileSet = "[swaggerSpec ''/spec/a.json'']"
            and allInputFileSet = ?all and w = ?R] run nt
  have "filter (\<lambda>e. code e = UNREFERENCED_JSON_FILE) (emitted ?R)
          = map unreferencedJsonFile (filter (\<lambda>spec. Specification.path spec \<notin> blackSet ?R) ?all)"
    by blast
  then have a: "filter (\<lambda>e. code e = UNREFERENCED_JSON_FILE) [unreferencedJsonFile (swaggerSpec ''/spec/b.json'')]
       = map unreferencedJsonFile (filter (\<lambda>spec. Specification.path spec \<notin> {''/spec/a.json''}) ?all)"
    by simp
  have b: "map unreferencedJsonFile (filter (\<lambda>spec. Specification.path spec \<notin> {''/spec/a.json''}) ?all)
       = [unreferencedJsonFile (swaggerSpec ''/spec/b.json'')]"
    by (simp add: swaggerSpec_def)
  from run a b show ?thesis by blast
qed

subsection \<open>More fuel, same result\<close>

lemma refLoop_more_fuel:
  assumes dfs: "\<And>s v r. dfs s v = Some r \<Longrightarrow> dfs' s v = Some r"
  shows "refLoop dfs env cur ts w = Some r \<Longrightarrow> refLoop dfs' env cur ts w = Some r"
proof (induction ts arbitrary: w)
  case Nil
  then show ?case by simp
next
  case (Cons t ts)
  let ?w1 = "backEdge cur t w"
  show ?case
  proof (cases "t \<notin> blackSet ?w1")
    case False
    with Cons.prems have "refLoop dfs env cur ts ?w1 = Some r" by (simp add: refLoop_Cons)
    from Cons.IH [OF this] False show ?thesis by (simp add: refLoop_Cons)
  next
    case True
    with Cons.prems obtain w2 where w2: "dfs (childSpec env cur t) ?w1 = Some w2"
      and rest: "(thrown w2 \<and> r = w2) \<or> (\<not> thrown w2 \<and> refLoop dfs env cur ts w2 = Some r)"
      by (auto simp: refLoop_Cons split: option.splits if_splits)
    from dfs [OF w2] have w2': "dfs' (childSpec env cur t) ?w1 = Some w2" .
    from rest show ?thesis
    proof
      assume "thrown w2 \<and> r = w2"
      with True w2' show ?thesis by (simp add: refLoop_Cons)
    next
      assume a: "\<not> thrown w2 \<and> refLoop dfs env cur ts w2 = Some r"
      then have "refLoop dfs' env cur ts w2 = Some r" using Cons.IH by blast
      with True w2' a show ?thesis by (simp add: refLoop_Cons)
    qed
  qed
qed

lemma DFS_Suc_fuel:
  "DFSTraversalValidate env n cur w = Some r \<Longrightarrow> DFSTraversalValidate env (Suc n) cur w = Some r"
proof (induction n arbitrary: cur w r)
  case 0
  then show ?case by simp
next
  case (Suc n)
  show ?case
  proof (cases "readFile env (Specification.path cur)")
    case None
    with Suc.prems show ?thesis by (simp add: DFS_Suc)
  next
    case (Some content)
    let ?doc = "snd (jsonParse env (Specification.path cur) content)"
    let ?errs = "fst (jsonParse env (Specification.path cur) content)"
    show ?thesis
    proof (cases "ruleOutcome env cur ?doc")
      case (Inl x)
      with Some Suc.prems show ?thesis by (simp add: DFS_Suc)
    next
      case (Inr rs)
      let ?w3 = "yield rs (yield ?errs (enter cur w))"
      from Some Inr Suc.prems obtain w4 where
        loop: "refLoop (DFSTraversalValidate env n) env cur (targets env cur ?doc) ?w3 = Some w4"
        and fin: "r = (if thrown w4 then w4 else moveToBlack (Specification.path cur) w4)"
        by (auto simp: DFS_Suc split: option.splits if_splits)
      have "refLoop (DFSTraversalValidate env (Suc n)) env cur (targets env cur ?doc) ?w3 = Some w4"
      proof (rule refLoop_more_fuel [where dfs = "DFSTraversalValidate env n", OF _ loop])
        show "\<And>s v r. DFSTraversalValidate env n s v = Some r
                \<Longrightarrow> DFSTraversalValidate env (Suc n) s v = Some r"
          using Suc.IH by blast
      qed
      with Some Inr fin show ?thesis by (simp add: DFS_Suc [of env "Suc n"])
    qed
  qed
qed

lemma DFS_more_fuel:
  "DFSTraversalValidate env n cur w = Some r \<Longrightarrow> DFSTraversalValidate env (n + k) cur w = Some r"
  by (induction k) (simp_all add: DFS_Suc_fuel)

text \<open>
  Claim C3. The walker terminates on every environment (its readable files are a
  finite list) and from every state: from some fuel on, every amount of fuel makes
  \<^const>\<open>DFSTraversalValidate\<close>, and \<^const>\<open>validateInputFiles\<close> over any roots, return a
  result, and more fuel never changes a result. The black set only grows, so a
  path becomes black at most once. In the loop over the references, a gray target
  is moved to black with a cycle finding and a black target is skipped, in both
  cases without a recursive call (the equations hold for any \<open>dfs\<close>); the
  recursive call is made exactly for a target that is neither gray nor black.
\<close>

theorem walker_terminates:
  "(\<exists>N. \<forall>k. \<exists>r. DFSTraversalValidate env (N + k) current w = Some r)
   \<and> (\<exists>N. \<forall>k. \<exists>r. validateInputFiles env (N + k) inputFileSet allInputFileSet = Some r)
   \<and> (DFSTraversalValidate env n current w = Some w' \<longrightarrow>
        DFSTraversalValidate env (n + k) current w = Some w' \<and> blackSet w \<subseteq> blackSet w')
   \<and> (t \<in> graySet w \<longrightarrow>
        refLoop dfs env current (t # ts) w
          = refLoop dfs env current ts (moveToBlack t (yield [circularReference current] w)))
   \<and> (t \<notin> graySet w \<and> t \<in> blackSet w \<longrightarrow>
        refLoop dfs env current (t # ts) w = refLoop dfs env current ts w)
   \<and> (t \<notin> graySet w \<and> t \<notin> blackSet w \<longrightarrow>
        refLoop dfs env current (t # ts) w
          = (case dfs (childSpec env current t) w of
               None \<Rightarrow> None
             | Some w2 \<Rightarrow> if thrown w2 then Some w2 else refLoop dfs env current ts w2))"
proof (intro conjI impI)
  show "\<exists>N. \<forall>k. \<exists>r. DFSTraversalValidate env (N + k) current w = Some r"
    by (rule DFS_enough_fuel)
  show "\<exists>N. \<forall>k. \<exists>r. validateInputFiles env (N + k) inputFileSet allInputFileSet = Some r"
    by (rule validateInputFiles_enough_fuel)
next
  assume a: "DFSTraversalValidate env n current w = Some w'"
  then show "DFSTraversalValidate env (n + k) current w = Some w'" by (rule DFS_more_fuel)
  from DFS_grows [OF a] show "blackSet w \<subseteq> blackSet w'" by blast
next
  assume "t \<in> graySet w"
  then show "refLoop dfs env current (t # ts) w
          = refLoop dfs env current ts (moveToBlack t (yield [circularReference current] w))"
    by (simp add: refLoop_Cons backEdge_def)
next
  assume "t \<notin> graySet w \<and> t \<in> blackSet w"
  then show "refLoop dfs env current (t # ts) w = refLoop dfs env current ts w"
    by (simp add: refLoop_Cons backEdge_def)
next
  assume "t \<notin> graySet w \<and> t \<notin> blackSet w"
  then show "refLoop dfs env current (t # ts) w
          = (case dfs (childSpec env current t) w of
               None \<Rightarrow> None
             | Some w2 \<Rightarrow> if thrown w2 then Some w2 else refLoop dfs env current ts w2)"
    by (simp add: refLoop_Cons backEdge_def)
qed

theorem walker_terminates_witness:
  "(\<exists>N. \<forall>k. \<exists>r. DFSTraversalValidate cycleEnv (N + k) (swaggerSpec ''/spec/a.json'') walk0 = Some r)
   \<and> (\<exists>N. \<forall>k. \<exists>r. validateInputFiles cycleEnv (N + k) [swaggerSpec ''/spec/a.json''] [] = Some r)
   \<and> DFSTraversalValidate cycleEnv 2 (swaggerSpec ''/spec/a.json'') walk0
       = Some \<lparr>emitted = [circularReference (swaggerSpec ''/spec/b.json'')], graySet = {},
               blackSet = {''/spec/a.json'', ''/spec/b.json''}, thrown = False\<rparr>
   \<and> DFSTraversalValidate cycleEnv (2 + 5) (swaggerSpec ''/spec/a.json'') walk0
       = Some \<lparr>emitted = [circularReference (swaggerSpec ''/spec/b.json'')], graySet = {},
               blackSet = {''/spec/a.json'', ''/spec/b.json''}, thrown = False\<rparr>
   \<and> ''/spec/a.json'' \<in> graySet \<lparr>emitted = [], graySet = {''/spec/a.json'', ''/spec/b.json''},
                                  blackSet = {}, thrown = False\<rparr>
   \<and> refLoop (\<lambda>s v. None) cycleEnv (swaggerSpec ''/spec/b.json'') [''/spec/a.json'']
        \<lparr>emitted = [], graySet = {''/spec/a.json'', ''/spec/b.json''}, blackSet = {}, thrown = False\<rparr>
       = Some \<lparr>emitted = [circularReference (swaggerSpec ''/spec/b.json'')], graySet = {''/spec/b.json''},
               blackSet = {''/spec/a.json''}, thrown = False\<rparr>
   \<and> refLoop (\<lambda>s v. None) cycleEnv (swaggerSpec ''/spec/b.json'') [''/spec/a.json'']
        \<lparr>emitted = [], graySet = {''/spec/b.json''}, blackSet = {''/spec/a.json''}, thrown = False\<rparr>
       = Some \<lparr>emitted = [], graySet = {''/spec/b.json''}, blackSet = {''/spec/a.json''}, thrown = False\<rparr>"
proof -
  let ?R = "\<lparr>emitted = [circularReference (swaggerSpec ''/spec/b.json'')], graySet = {},
               blackSet = {''/spec/a.json'', ''/spec/b.json''}, thrown = False\<rparr>"
  let ?g = "\<lparr>emitted = [], graySet = {''/spec/a.json'', ''/spec/b.json''}, blackSet = {}, thrown = False\<rparr>"
  let ?b = "\<lparr>emitted = [], graySet = {''/spec/b.json''}, blackSet = {''/spec/a.json''}, thrown = False\<rparr>"
  have run: "DFSTraversalValidate cycleEnv 2 (swaggerSpec ''/spec/a.json'') walk0 = Some ?R"
    by code_simp
  note t1 = walker_terminates
         [where env = cycleEnv and current = "swaggerSpec ''/spec/a.json''" and w = walk0
            and inputFileSet = "[swaggerSpec ''/spec/a.json'']" and allInputFileSet = "[]"
            and n = 2 and w' = ?R and k = 5]
  from t1 have a: "\<exists>N. \<forall>k. \<exists>r. DFSTraversalValidate cycleEnv (N + k) (swaggerSpec ''/spec/a.json'') walk0 = Some r"
    by blast
  from t1 have b: "\<exists>N. \<forall>k. \<exists>r. validateInputFiles cycleEnv (N + k) [swaggerSpec ''/spec/a.json''] [] = Some r"
    by blast
  from t1 run have c: "DFSTraversalValidate cycleEnv (2 + 5) (swaggerSpec ''/spec/a.json'') walk0 = Some ?R"
    by blast
  have gray: "''/spec/a.json'' \<in> graySet ?g" by simp
  have black: "''/spec/a.json'' \<notin> graySet ?b \<and> ''/spec/a.json'' \<in> blackSet ?b" by simp
  from walker_terminates
         [where dfs = "\<lambda>s v. None" and env = cycleEnv and current = "swaggerSpec ''/spec/b.json''"
            and t = "''/spec/a.json''" and ts = "[]" and w = ?g] gray
  have "refLoop (\<lambda>s v. None) cycleEnv (swaggerSpec ''/spec/b.json'') [''/spec/a.json''] ?g
          = refLoop (\<lambda>s v. None) cycleEnv (swaggerSpec ''/spec/b.json'') []
              (moveToBlack ''/spec/a.json'' (yield [circularReference (swaggerSpec ''/spec/b.json'')] ?g))"
    by blast
  then have d: "refLoop (\<lambda>s v. None) cycleEnv (swaggerSpec ''/spec/b.json'') [''/spec/a.json''] ?g
       = Some \<lparr>emitted = [circularReference (swaggerSpec ''/spec/b.json'')], graySet = {''/spec/b.json''},
               blackSet = {''/spec/a.json''}, thrown = False\<rparr>"
    by (simp add: moveToBlack_def moveTo_def yield_def insert_Diff_if)
  from walker_terminates
         [where dfs = "\<lambda>s v. None" and env = cycleEnv and current = "swaggerSpec ''/spec/b.json''"
            and t = "''/spec/a.json''" and ts = "[]" and w = ?b] black
  have "refLoop (\<lambda>s v. None) cycleEnv (swaggerSpec ''/spec/b.json'') [''/spec/a.json''] ?b
          = refLoop (\<lambda>s v. None) cycleEnv (swaggerSpec ''/spec/b.json'') [] ?b"
    by blast
  then have e: "refLoop (\<lambda>s v. None) cycleEnv (swaggerSpec ''/spec/b.json'') [''/spec/a.json''] ?b = Some ?b"
    by simp
  from a b run c gray d e show ?thesis by blast
qed

subsection \<open>Gray paths of a whole traversal\<close>

lemma walkRoots_grows: "walkRoots env n roots w = Some w' \<Longrightarrow> blackSet w \<subseteq> blackSet w'"
proof (induction roots arbitrary: w)
  case Nil
  then show ?case by simp
next
  case (Cons r roots)
  from Cons.prems obtain w1 where w1: "DFSTraversalValidate env n r w = Some w1"
    and rest: "(thrown w1 \<and> w' = w1) \<or> (\<not> thrown w1 \<and> walkRoots env n roots w1 = Some w')"
    by (auto split: option.splits if_splits)
  from DFS_grows [OF w1] have "blackSet w \<subseteq> blackSet w1" by blast
  with rest Cons.IH show ?case by blast
qed

lemma walkRoots_gray:
  assumes cl: "closed env U" and rd: "\<forall>p\<in>U. readFile env p \<noteq> None"
  shows "Specification.path ` set roots \<subseteq> U \<Longrightarrow> walkRoots env n roots w = Some w' \<Longrightarrow> \<not> thrown w'
           \<Longrightarrow> graySet w' \<subseteq> graySet w - Specification.path ` set roots
               \<and> Specification.path ` set roots \<subseteq> blackSet w'"
proof (induction roots arbitrary: w)
  case Nil
  then show ?case by simp
next
  case (Cons r roots)
  from Cons.prems obtain w1 where w1: "DFSTraversalValidate env n r w = Some w1"
    and rest: "(thrown w1 \<and> w' = w1) \<or> (\<not> thrown w1 \<and> walkRoots env n roots w1 = Some w')"
    by (auto split: option.splits if_splits)
  from rest Cons.prems have nt: "\<not> thrown w1" and loop: "walkRoots env n roots w1 = Some w'"
    by auto
  from DFS_gray [OF cl rd _ w1 nt] Cons.prems
  have g1: "graySet w1 \<subseteq> graySet w - {Specification.path r}" and b1: "Specification.path r \<in> blackSet w1"
    by auto
  from Cons.IH [OF _ loop] Cons.prems
  have g': "graySet w' \<subseteq> graySet w1 - Specification.path ` set roots"
    and b': "Specification.path ` set roots \<subseteq> blackSet w'" by auto
  have "blackSet w1 \<subseteq> blackSet w'"
    using walkRoots_grows [OF loop] .
  with g1 b1 g' b' show ?case by auto
qed

text \<open>
  Claim C1 fails in two ways. A root whose file cannot be read is left gray when
  its traversal has returned: the walker returns from the \<^verbatim>\<open>catch\<close> block without
  moving the path to black. And a path can turn black before its own references
  have all been processed: \<^verbatim>\<open>a.json\<close> refers to \<^verbatim>\<open>b.json\<close> and \<^verbatim>\<open>c.json\<close>; the
  invocation on \<^verbatim>\<open>b.json\<close>, entered while \<^verbatim>\<open>a.json\<close> is gray, finds the back-edge
  and returns with \<^verbatim>\<open>a.json\<close> black, before \<^verbatim>\<open>c.json\<close> has been looked at.
\<close>

theorem walker_gray_counterexample:
  "validateInputFiles (exampleEnv []) 1 [swaggerSpec ''/spec/missing.json''] []
     = Some \<lparr>emitted = [noJsonFileFound (swaggerSpec ''/spec/missing.json'')],
             graySet = {''/spec/missing.json''}, blackSet = {}, thrown = False\<rparr>
   \<and> refsOfFile cycleEnv3 ''/spec/a.json'' = [''/spec/b.json'', ''/spec/c.json'']
   \<and> DFSTraversalValidate cycleEnv3 1 (swaggerSpec ''/spec/b.json'')
        \<lparr>emitted = [], graySet = {''/spec/a.json''}, blackSet = {}, thrown = False\<rparr>
     = Some \<lparr>emitted = [circularReference (swaggerSpec ''/spec/b.json'')],
             graySet = {}, blackSet = {''/spec/a.json'', ''/spec/b.json''}, thrown = False\<rparr>"
  by code_simp

text \<open>
  Claim C1, amended. Let \<open>U\<close> be a set of paths of readable files that contains
  the references of each of its files. An invocation of the walker on a path of
  \<open>U\<close> that returns normally returns with its own path black and with no gray
  path beyond those that were gray on entry: whatever the invocation and the
  invocations below it turned gray is black by then, so only invocations still in
  progress own gray paths. Black paths stay black, gray paths leave the gray set
  only into the black set, and the two sets stay disjoint. After a complete run
  over roots in \<open>U\<close> the gray set is empty and every root is black.
\<close>

theorem walker_leaves_no_gray:
  "closed env U \<and> (\<forall>p\<in>U. readFile env p \<noteq> None) \<longrightarrow>
     (Specification.path current \<in> U \<and> DFSTraversalValidate env n current w = Some w' \<and> \<not> thrown w' \<longrightarrow>
        Specification.path current \<in> blackSet w'
        \<and> graySet w' \<subseteq> graySet w - {Specification.path current}
        \<and> blackSet w \<subseteq> blackSet w'
        \<and> graySet w \<subseteq> graySet w' \<union> blackSet w'
        \<and> (graySet w \<inter> blackSet w = {} \<longrightarrow> graySet w' \<inter> blackSet w' = {}))
     \<and> (Specification.path ` set inputFileSet \<subseteq> U
          \<and> validateInputFiles env n inputFileSet allInputFileSet = Some r \<and> \<not> thrown r \<longrightarrow>
        graySet r = {} \<and> Specification.path ` set inputFileSet \<subseteq> blackSet r)"
proof (intro impI conjI)
  assume u: "closed env U \<and> (\<forall>p\<in>U. readFile env p \<noteq> None)"
  assume a: "Specification.path current \<in> U \<and> DFSTraversalValidate env n current w = Some w' \<and> \<not> thrown w'"
  from u a DFS_gray [of env U current n w w']
  show "Specification.path current \<in> blackSet w'"
    and "graySet w' \<subseteq> graySet w - {Specification.path current}" by blast+
  from a DFS_grows [of env n current w w']
  show "blackSet w \<subseteq> blackSet w'" and "graySet w \<subseteq> graySet w' \<union> blackSet w'"
    by (auto simp: colored_def)
  assume "graySet w \<inter> blackSet w = {}"
  with a DFS_disjoint [of env n current w w'] show "graySet w' \<inter> blackSet w' = {}" by blast
next
  assume u: "closed env U \<and> (\<forall>p\<in>U. readFile env p \<noteq> None)"
  assume a: "Specification.path ` set inputFileSet \<subseteq> U
          \<and> validateInputFiles env n inputFileSet allInputFileSet = Some r \<and> \<not> thrown r"
  let ?init = "\<lparr>emitted = [], graySet = {}, blackSet = {}, thrown = False\<rparr>"
  from a obtain w0 where w0: "walkRoots env n inputFileSet ?init = Some w0"
    and r: "graySet r = graySet w0" "blackSet r = blackSet w0" "thrown r = thrown w0"
    by (auto simp: validateInputFiles_def split: option.splits if_splits)
  from a r have nt: "\<not> thrown w0" by simp
  from u a walkRoots_gray [of env U inputFileSet n ?init w0, OF _ _ _ w0 nt]
  have "graySet w0 \<subseteq> graySet ?init - Specification.path ` set inputFileSet
               \<and> Specification.path ` set inputFileSet \<subseteq> blackSet w0" by blast
  with r show "graySet r = {}" and "Specification.path ` set inputFileSet \<subseteq> blackSet r" by auto
qed

theorem walker_leaves_no_gray_witness:
  "closed cycleEnv3 {''/spec/a.json'', ''/spec/b.json'', ''/spec/c.json''}
   \<and> readFile cycleEnv3 ''/spec/a.json'' \<noteq> None
   \<and> readFile cycleEnv3 ''/spec/b.json'' \<noteq> None
   \<and> readFile cycleEnv3 ''/spec/c.json'' \<noteq> None
   \<and> DFSTraversalValidate cycleEnv3 2 (swaggerSpec ''/spec/a.json'') walk0
       = Some \<lparr>emitted = [circularReference (swaggerSpec ''/spec/b.json'')], graySet = {},
               blackSet = {''/spec/a.json'', ''/spec/b.json'', ''/spec/c.json''}, thrown = False\<rparr>
   \<and> validateInputFiles cycleEnv3 2 [swaggerSpec ''/spec/a.json''] []
       = Some \<lparr>emitted = [circularReference (swaggerSpec ''/spec/b.json'')], graySet = {},
               blackSet = {''/spec/a.json'', ''/spec/b.json'', ''/spec/c.json''}, thrown = False\<rparr>
   \<and> ''/spec/a.json'' \<in> {''/spec/a.json'', ''/spec/b.json'', ''/spec/c.json''}"
proof -
  let ?U = "{''/spec/a.json'', ''/spec/b.json'', ''/spec/c.json''}"
  let ?R = "\<lparr>emitted = [circularReference (swaggerSpec ''/spec/b.json'')], graySet = {},
               blackSet = {''/spec/a.json'', ''/spec/b.json'', ''/spec/c.json''}, thrown = False\<rparr>"
  have cl: "closed cycleEnv3 ?U" by code_simp
  have rd: "readFile cycleEnv3 ''/spec/a.json'' \<noteq> None \<and> readFile cycleEnv3 ''/spec/b.json'' \<noteq> None
            \<and> readFile cycleEnv3 ''/spec/c.json'' \<noteq> None" by code_simp
  then have rdU: "\<forall>p\<in>?U. readFile cycleEnv3 p \<noteq> None" by simp
  have inU: "Specification.path (swaggerSpec ''/spec/a.json'') \<in> ?U"
    by (simp add: swaggerSpec_def)
  have rootsU: "Specification.path ` set [swaggerSpec ''/spec/a.json''] \<subseteq> ?U"
    by (simp add: swaggerSpec_def)
  have run: "DFSTraversalValidate cycleEnv3 2 (swaggerSpec ''/spec/a.json'') walk0 = Some ?R"
    by code_simp
  have runAll: "validateInputFiles cycleEnv3 2 [swaggerSpec ''/spec/a.json''] [] = Some ?R"
    by code_simp
  have nt: "\<not> thrown ?R" by simp
  from walker_leaves_no_gray
         [where env = cycleEnv3 and U = ?U and current = "swaggerSpec ''/spec/a.json''" and n = 2
            and w = walk0 and w' = ?R and inputFileSet = "[swaggerSpec ''/spec/a.json'']"
            and allInputFileSet = "[]" and r = ?R]
       cl rdU inU rootsU run runAll nt
  have "Specification.path (swaggerSpec ''/spec/a.json'') \<in> blackSet ?R \<and> graySet ?R = {}"
    by blast
  then have "''/spec/a.json'' \<in> {''/spec/a.json'', ''/spec/b.json'', ''/spec/c.json''}"
    by (simp add: swaggerSpec_def)
  with cl rd run runAll show ?thesis by blast
qed

subsection \<open>A cycle of two files\<close>






lemma filter_code_walker:
  "code ` set es \<subseteq> {NO_JSON_FILE_FOUND, JSON_PARSE, INCONSISTENT_API_VERSION, INVALID_FILE_LOCATION,
                      UNREFERENCED_JSON_FILE}
     \<Longrightarrow> filter (\<lambda>e. code e = CIRCULAR_REFERENCE) es = []"
  by (auto simp: filter_empty_conv)






text \<open>
  Where the version of the first file has no string conversion, the version
  rule raises before any reference is followed: the run ends there with no
  finding, and the first path stays gray.
\<close>

lemma two_file_cycle_version_raises:
  "getReferencedFileNames opaqueVersionEnv ''/spec/a.json''
       (snd (jsonParse opaqueVersionEnv ''/spec/a.json'' ''b.json'')) = [''/spec/b.json'']
   \<and> getReferencedFileNames opaqueVersionEnv ''/spec/b.json''
       (snd (jsonParse opaqueVersionEnv ''/spec/b.json'' ''a.json'')) = [''/spec/a.json'']
   \<and> validateSpecificationAPIVersion opaqueVersionEnv (swaggerSpec ''/spec/a.json'')
       (snd (jsonParse opaqueVersionEnv ''/spec/a.json'' ''b.json'')) = Inl TypeError
   \<and> validateInputFiles opaqueVersionEnv 2 [swaggerSpec ''/spec/a.json'', swaggerSpec ''/spec/b.json'']
        [swaggerSpec ''/spec/a.json'', swaggerSpec ''/spec/b.json'']
       = Some \<lparr>emitted = [], graySet = {''/spec/a.json''}, blackSet = {}, thrown = True\<rparr>"
  by code_simp



section \<open>Version segments of input files\<close>

lemma split_nonempty: "split c s \<noteq> []"
  by (induction s) (auto split: list.splits)

lemma split_no_separator: "c \<notin> set s \<Longrightarrow> split c s = [s]"
  by (induction s) auto

lemma split_append_separator:
  "c \<notin> set name \<Longrightarrow> split c (dir @ c # name) = split c dir @ [name]"
proof (induction dir)
  case Nil
  then show ?case by (simp add: split_no_separator)
next
  case (Cons x dir)
  then show ?case
    using split_nonempty [of c dir] by (cases "split c dir") auto
qed

lemma find_first_match:
  "find P xs = Some v \<Longrightarrow> \<exists>pre post. xs = pre @ v # post \<and> P v \<and> (\<forall>s\<in>set pre. \<not> P s)"
proof (induction xs)
  case Nil
  then show ?case by simp
next
  case (Cons x xs)
  show ?case
  proof (cases "P x")
    case True
    with Cons.prems have "x = v" by simp
    with True have "x # xs = [] @ v # xs \<and> P v \<and> (\<forall>s\<in>set []. \<not> P s)" by simp
    then show ?thesis by blast
  next
    case False
    with Cons obtain pre post where "xs = pre @ v # post" "P v" "\<forall>s\<in>set pre. \<not> P s" by auto
    with False have "x # xs = (x # pre) @ v # post \<and> P v \<and> (\<forall>s\<in>set (x # pre). \<not> P s)" by simp
    then show ?thesis by blast
  qed
qed

text \<open>
  Claim C10. \<^const>\<open>getVersionFromInputFile\<close> looks only at the segments of the path
  before the last \<open>/\<close>: a result is the first of them that matches the date
  pattern; there is no result when fewer than two segments precede the file name
  or none of them matches; and the file name itself never changes the result.
\<close>

theorem getVersionFromInputFile_directory_segments:
  "(getVersionFromInputFile filePath = Some v \<longrightarrow>
      (\<exists>pre post. butlast (split (CHR ''/'') filePath) = pre @ v # post
         \<and> apiVersionRegex v \<and> (\<forall>s\<in>set pre. \<not> apiVersionRegex s)))
   \<and> (getVersionFromInputFile filePath = None \<longrightarrow>
        length (butlast (split (CHR ''/'') filePath)) < 2
        \<or> (\<forall>s\<in>set (butlast (split (CHR ''/'') filePath)). \<not> apiVersionRegex s))
   \<and> (length (butlast (split (CHR ''/'') filePath)) < 2 \<longrightarrow> getVersionFromInputFile filePath = None)
   \<and> (CHR ''/'' \<notin> set name \<and> CHR ''/'' \<notin> set name' \<longrightarrow>
        getVersionFromInputFile (dir @ CHR ''/'' # name) = getVersionFromInputFile (dir @ CHR ''/'' # name'))"
proof (intro conjI impI)
  assume "getVersionFromInputFile filePath = Some v"
  then have "find apiVersionRegex (butlast (split (CHR ''/'') filePath)) = Some v"
    by (simp add: getVersionFromInputFile_def Let_def split: if_splits)
  then show "\<exists>pre post. butlast (split (CHR ''/'') filePath) = pre @ v # post
         \<and> apiVersionRegex v \<and> (\<forall>s\<in>set pre. \<not> apiVersionRegex s)"
    by (rule find_first_match)
next
  assume "getVersionFromInputFile filePath = None"
  then show "length (butlast (split (CHR ''/'') filePath)) < 2
        \<or> (\<forall>s\<in>set (butlast (split (CHR ''/'') filePath)). \<not> apiVersionRegex s)"
    by (auto simp: getVersionFromInputFile_def Let_def find_None_iff split: if_splits)
next
  assume "length (butlast (split (CHR ''/'') filePath)) < 2"
  then show "getVersionFromInputFile filePath = None"
    by (simp add: getVersionFromInputFile_def Let_def)
next
  assume "CHR ''/'' \<notin> set name \<and> CHR ''/'' \<notin> set name'"
  then show "getVersionFromInputFile (dir @ CHR ''/'' # name) = getVersionFromInputFile (dir @ CHR ''/'' # name')"
    by (simp add: getVersionFromInputFile_def split_append_separator)
qed

theorem getVersionFromInputFile_directory_segments_witness:
  "getVersionFromInputFile ''compute/stable/2019-01-01/2020-02-02/a.json'' = Some ''2019-01-01''
   \<and> (\<exists>pre post. butlast (split (CHR ''/'') ''compute/stable/2019-01-01/2020-02-02/a.json'')
                      = pre @ ''2019-01-01'' # post
          \<and> apiVersionRegex ''2019-01-01'' \<and> (\<forall>s\<in>set pre. \<not> apiVersionRegex s))
   \<and> butlast (split (CHR ''/'') ''compute/stable/2019-01-01/2020-02-02/a.json'')
       = [''compute'', ''stable'', ''2019-01-01'', ''2020-02-02'']
   \<and> length (butlast (split (CHR ''/'') ''2019-01-01/a.json'')) < 2
   \<and> getVersionFromInputFile ''2019-01-01/a.json'' = None
   \<and> CHR ''/'' \<notin> set ''2019-01-01.json'' \<and> CHR ''/'' \<notin> set ''a.json''
   \<and> getVersionFromInputFile (''compute/stable'' @ CHR ''/'' # ''2019-01-01.json'')
       = getVersionFromInputFile (''compute/stable'' @ CHR ''/'' # ''a.json'')
   \<and> getVersionFromInputFile (''compute/stable'' @ CHR ''/'' # ''2019-01-01.json'') = None"
proof -
  have a: "getVersionFromInputFile ''compute/stable/2019-01-01/2020-02-02/a.json'' = Some ''2019-01-01''"
    by code_simp
  have b: "butlast (split (CHR ''/'') ''compute/stable/2019-01-01/2020-02-02/a.json'')
       = [''compute'', ''stable'', ''2019-01-01'', ''2020-02-02'']"
    by code_simp
  have c: "getVersionFromInputFile (''compute/stable'' @ CHR ''/'' # ''2019-01-01.json'') = None"
    by code_simp
  have d: "length (butlast (split (CHR ''/'') ''2019-01-01/a.json'')) < 2"
    by code_simp
  have e: "CHR ''/'' \<notin> set ''2019-01-01.json'' \<and> CHR ''/'' \<notin> set ''a.json''"
    by simp
  from getVersionFromInputFile_directory_segments
         [where filePath = "''compute/stable/2019-01-01/2020-02-02/a.json''" and v = "''2019-01-01''"] a
  have f: "\<exists>pre post. butlast (split (CHR ''/'') ''compute/stable/2019-01-01/2020-02-02/a.json'')
                      = pre @ ''2019-01-01'' # post
          \<and> apiVersionRegex ''2019-01-01'' \<and> (\<forall>s\<in>set pre. \<not> apiVersionRegex s)"
    by blast
  from getVersionFromInputFile_directory_segments
         [where filePath = "''2019-01-01/a.json''" and name = "''2019-01-01.json''"
            and name' = "''a.json''" and dir = "''compute/stable''"] d e
  have g: "getVersionFromInputFile ''2019-01-01/a.json'' = None
    \<and> getVersionFromInputFile (''compute/stable'' @ CHR ''/'' # ''2019-01-01.json'')
       = getVersionFromInputFile (''compute/stable'' @ CHR ''/'' # ''a.json'')"
    by blast
  from a b c d e f g show ?thesis by blast
qed

section \<open>Correlation keys\<close>

text \<open>
  Claim C7. The correlation key is the hash of the projection \<^const>\<open>toObject\<close>
  builds, so two findings with equal projections have equal keys. The projection
  is read off the body alone: findings that differ only in message, level or
  path have the same key, and for each code the key depends only on the URL the
  switch selects for it (and, for a parse error, on the parser position).
\<close>

theorem errorCorrelationId_projection:
  "(toObject e1 = toObject e2 \<longrightarrow> errorCorrelationId hash e1 = errorCorrelationId hash e2)
   \<and> (body e1 = body e2 \<longrightarrow> errorCorrelationId hash e1 = errorCorrelationId hash e2)
   \<and> (body e1 = UnreferencedJsonFile r1 u \<and> body e2 = UnreferencedJsonFile r2 u \<longrightarrow>
        errorCorrelationId hash e1 = errorCorrelationId hash e2)
   \<and> (body e1 = CircularReference r1 u \<and> body e2 = CircularReference r2 u \<longrightarrow>
        errorCorrelationId hash e1 = errorCorrelationId hash e2)
   \<and> (body e1 = InconsistentApiVersion u r1 \<and> body e2 = InconsistentApiVersion u r2 \<longrightarrow>
        errorCorrelationId hash e1 = errorCorrelationId hash e2)
   \<and> (body e1 = InvalidFileLocation u r1 \<and> body e2 = InvalidFileLocation u r2 \<longrightarrow>
        errorCorrelationId hash e1 = errorCorrelationId hash e2)
   \<and> (body e1 = NoJsonFileFound u j1 \<and> body e2 = NoJsonFileFound u j2 \<longrightarrow>
        errorCorrelationId hash e1 = errorCorrelationId hash e2)
   \<and> (body e1 = NotAutorestMarkdown u h1 \<and> body e2 = NotAutorestMarkdown u h2 \<longrightarrow>
        errorCorrelationId hash e1 = errorCorrelationId hash e2)
   \<and> (body e1 = MultipleApiVersion u t1 \<and> body e2 = MultipleApiVersion u t2 \<longrightarrow>
        errorCorrelationId hash e1 = errorCorrelationId hash e2)
   \<and> (body e1 = JsonParse p1 \<and> body e2 = JsonParse p2 \<and> ParseError.url p1 = ParseError.url p2
        \<and> position p1 = position p2 \<longrightarrow>
        errorCorrelationId hash e1 = errorCorrelationId hash e2)"
proof -
  have same_body: "body e1 = body e2 \<Longrightarrow> toObject e1 = toObject e2"
    by (simp add: toObject_def code_def split: Body.splits)
  show ?thesis
    using same_body by (simp add: errorCorrelationId_def toObject_def code_def)
qed

theorem errorCorrelationId_projection_witness:
  "errorCorrelationId exampleHash
      \<lparr>body = CircularReference ''/spec/readme.md'' ''/spec/a.json'',
       message = ''The JSON file has a circular reference.'', level = Warning, Error.path = ''/spec/a.json''\<rparr>
   = errorCorrelationId exampleHash
      \<lparr>body = CircularReference ''/other/readme.md'' ''/spec/a.json'',
       message = ''circular'', level = Error, Error.path = ''/spec/a.json''\<rparr>
   \<and> errorCorrelationId exampleHash
      \<lparr>body = JsonParse \<lparr>ParseError.url = ''/spec/a.json'', position = \<lparr>line = 3, column = 7\<rparr>, details = ''unexpected token''\<rparr>,
       message = ''The file is not a valid JSON file.'', level = Error, Error.path = ''/spec/a.json''\<rparr>
   = errorCorrelationId exampleHash
      \<lparr>body = JsonParse \<lparr>ParseError.url = ''/spec/a.json'', position = \<lparr>line = 3, column = 7\<rparr>, details = ''other wording''\<rparr>,
       message = ''invalid JSON'', level = Error, Error.path = ''/spec/a.json''\<rparr>"
  using errorCorrelationId_projection
    [of "\<lparr>body = CircularReference ''/spec/readme.md'' ''/spec/a.json'',
       message = ''The JSON file has a circular reference.'', level = Warning, Error.path = ''/spec/a.json''\<rparr>"
      "\<lparr>body = CircularReference ''/other/readme.md'' ''/spec/a.json'',
       message = ''circular'', level = Error, Error.path = ''/spec/a.json''\<rparr>"
      exampleHash "''/spec/readme.md''" "''/spec/a.json''" "''/other/readme.md''"]
    errorCorrelationId_projection
    [of "\<lparr>body = JsonParse \<lparr>ParseError.url = ''/spec/a.json'', position = \<lparr>line = 3, column = 7\<rparr>, details = ''unexpected token''\<rparr>,
       message = ''The file is not a valid JSON file.'', level = Error, Error.path = ''/spec/a.json''\<rparr>"
      "\<lparr>body = JsonParse \<lparr>ParseError.url = ''/spec/a.json'', position = \<lparr>line = 3, column = 7\<rparr>, details = ''other wording''\<rparr>,
       message = ''invalid JSON'', level = Error, Error.path = ''/spec/a.json''\<rparr>"
      exampleHash _ _ _ _ _ _ _ _ _
      "\<lparr>ParseError.url = ''/spec/a.json'', position = \<lparr>line = 3, column = 7\<rparr>, details = ''unexpected token''\<rparr>"
      "\<lparr>ParseError.url = ''/spec/a.json'', position = \<lparr>line = 3, column = 7\<rparr>, details = ''other wording''\<rparr>"]
  by simp

section \<open>The version rule\<close>

lemma startsWith_iff: "startsWith s sub \<longleftrightarrow> (\<exists>post. s = sub @ post)"
  by (induction s sub rule: startsWith.induct) auto

lemma includesStr_iff: "includesStr s sub \<longleftrightarrow> (\<exists>pre post. s = pre @ sub @ post)"
proof (induction s)
  case Nil
  then show ?case by auto
next
  case (Cons x xs)
  show ?case
  proof
    assume "includesStr (x # xs) sub"
    then consider "startsWith (x # xs) sub" | "includesStr xs sub" by auto
    then show "\<exists>pre post. x # xs = pre @ sub @ post"
    proof cases
      case 1
      then obtain post where "x # xs = [] @ sub @ post" by (auto simp: startsWith_iff)
      then show ?thesis by blast
    next
      case 2
      with Cons obtain pre post where "xs = pre @ sub @ post" by auto
      then have "x # xs = (x # pre) @ sub @ post" by simp
      then show ?thesis by blast
    qed
  next
    assume "\<exists>pre post. x # xs = pre @ sub @ post"
    then obtain pre post where eq: "x # xs = pre @ sub @ post" by blast
    show "includesStr (x # xs) sub"
    proof (cases pre)
      case Nil
      with eq have "startsWith (x # xs) sub" by (auto simp: startsWith_iff)
      then show ?thesis by simp
    next
      case (Cons y pre')
      with eq have "xs = pre' @ sub @ post" by simp
      with Cons.IH have "includesStr xs sub" by blast
      then show ?thesis by simp
    qed
  qed
qed



text \<open>The version rule, case by case.\<close>

lemma version_rule_cases:
  "validateSpecificationAPIVersion env current document =
     (if document = JNull then Inl TypeError
      else (case member document ''info'' of
              None \<Rightarrow> Inr []
            | Some infoValue \<Rightarrow>
                if infoValue = JNull then Inl TypeError
                else (case toStringArg env (member infoValue ''version'') of
                        Inl x \<Rightarrow> Inl x
                      | Inr v \<Rightarrow>
                          if \<exists>pre post. Specification.path current = pre @ v @ post then Inr []
                          else Inr [inconsistentApiVersion current])))"
  by (simp add: validateSpecificationAPIVersion_def getProperty_def inconsistentApiVersion_def
        includesStr_iff split: option.splits sum.splits)

text \<open>
  Claim C6 says that a document that declares no version field yields no
  \<^verbatim>\<open>INCONSISTENT_API_VERSION\<close> finding. The rule tests \<^verbatim>\<open>info !== undefined\<close>, not the
  version: for a document whose \<^verbatim>\<open>info\<close> has no \<^verbatim>\<open>version\<close>, the path is searched
  for the text \<^verbatim>\<open>undefined\<close>, and the finding is emitted.
\<close>

theorem version_rule_without_version_counterexample:
  "member (JObject ObjectPrototype [(''info'', JObject ObjectPrototype [(''title'', JString ''Foo'')])]) ''info''
     = Some (JObject ObjectPrototype [(''title'', JString ''Foo'')])
   \<and> member (JObject ObjectPrototype [(''title'', JString ''Foo'')]) ''version'' = None
   \<and> validateSpecificationAPIVersion (exampleEnv []) fooSpec
        (JObject ObjectPrototype [(''info'', JObject ObjectPrototype [(''title'', JString ''Foo'')])])
     = Inr [inconsistentApiVersion fooSpec]
   \<and> code (inconsistentApiVersion fooSpec) = INCONSISTENT_API_VERSION"
  by (simp add: validateSpecificationAPIVersion_def getProperty_def inconsistentApiVersion_def
        fooSpec_def code_def)

text \<open>
  Claim C6, amended. The rule is guarded by the \<^verbatim>\<open>info\<close> member of the document,
  own or inherited, and not by the version field. It yields the finding, with
  severity Error, if and only if the document has an \<^verbatim>\<open>info\<close> that is not
  \<^verbatim>\<open>null\<close>, \<^verbatim>\<open>info.version\<close> has a string conversion, and the path does not
  contain that string as a contiguous piece of text; a missing version converts
  to the text \<^verbatim>\<open>undefined\<close> and a string version to itself. It yields nothing
  if and only if the document has no \<^verbatim>\<open>info\<close>, or has one as before whose
  converted version the path contains. In the remaining cases, an \<^verbatim>\<open>info\<close> that
  is \<^verbatim>\<open>null\<close> or a version without string conversion (or a document that is
  \<^verbatim>\<open>null\<close>, which the walker does not pass), the rule raises an exception.
\<close>

theorem validateSpecificationAPIVersion_guarded_by_info:
  "(validateSpecificationAPIVersion env current document = Inr [inconsistentApiVersion current]
      \<longleftrightarrow> document \<noteq> JNull
          \<and> (\<exists>infoValue v. member document ''info'' = Some infoValue \<and> infoValue \<noteq> JNull
                 \<and> toStringArg env (member infoValue ''version'') = Inr v
                 \<and> \<not> (\<exists>pre post. Specification.path current = pre @ v @ post)))
   \<and> (validateSpecificationAPIVersion env current document = Inr []
      \<longleftrightarrow> document \<noteq> JNull
          \<and> (member document ''info'' = None
               \<or> (\<exists>infoValue v. member document ''info'' = Some infoValue \<and> infoValue \<noteq> JNull
                      \<and> toStringArg env (member infoValue ''version'') = Inr v
                      \<and> (\<exists>pre post. Specification.path current = pre @ v @ post))))
   \<and> (isl (validateSpecificationAPIVersion env current document)
      \<longleftrightarrow> document = JNull \<or> member document ''info'' = Some JNull
          \<or> (\<exists>infoValue. member document ''info'' = Some infoValue
                 \<and> isl (toStringArg env (member infoValue ''version''))))
   \<and> (validateSpecificationAPIVersion env current document = Inr [inconsistentApiVersion current]
        \<or> validateSpecificationAPIVersion env current document = Inr []
        \<or> isl (validateSpecificationAPIVersion env current document))
   \<and> toStringArg env None = Inr ''undefined''
   \<and> toStringArg env (Some (JString version)) = Inr version
   \<and> code (inconsistentApiVersion current) = INCONSISTENT_API_VERSION
   \<and> level (inconsistentApiVersion current) = Error"
proof -
  let ?r = "validateSpecificationAPIVersion env current document"
  have ne: "Inr [inconsistentApiVersion current] \<noteq> (Inr [] :: Exn + Error list)" by simp
  have emits: "?r = Inr [inconsistentApiVersion current]
      \<longleftrightarrow> document \<noteq> JNull
          \<and> (\<exists>infoValue v. member document ''info'' = Some infoValue \<and> infoValue \<noteq> JNull
                 \<and> toStringArg env (member infoValue ''version'') = Inr v
                 \<and> \<not> (\<exists>pre post. Specification.path current = pre @ v @ post))"
    unfolding version_rule_cases [of env current document]
    by (auto split: option.splits sum.splits)
  have silent: "?r = Inr []
      \<longleftrightarrow> document \<noteq> JNull
          \<and> (member document ''info'' = None
               \<or> (\<exists>infoValue v. member document ''info'' = Some infoValue \<and> infoValue \<noteq> JNull
                      \<and> toStringArg env (member infoValue ''version'') = Inr v
                      \<and> (\<exists>pre post. Specification.path current = pre @ v @ post)))"
    unfolding version_rule_cases [of env current document]
    by (auto split: option.splits sum.splits)
  have raises: "isl ?r
      \<longleftrightarrow> document = JNull \<or> member document ''info'' = Some JNull
          \<or> (\<exists>infoValue. member document ''info'' = Some infoValue
                 \<and> isl (toStringArg env (member infoValue ''version'')))"
    unfolding version_rule_cases [of env current document]
    by (auto split: option.splits sum.splits)
  have total: "?r = Inr [inconsistentApiVersion current] \<or> ?r = Inr [] \<or> isl ?r"
    unfolding version_rule_cases [of env current document]
    by (auto split: option.splits sum.splits)
  have conv: "toStringArg env None = Inr ''undefined''"
    "toStringArg env (Some (JString version)) = Inr version"
    by simp_all
  have props: "code (inconsistentApiVersion current) = INCONSISTENT_API_VERSION"
    "level (inconsistentApiVersion current) = Error"
    by (simp_all add: inconsistentApiVersion_def code_def)
  from emits silent raises total conv props show ?thesis by (intro conjI)
qed

text \<open>
  The rule on five documents at the path of \<open>fooSpec\<close>, which contains
  \<^verbatim>\<open>2021-01-01\<close>: no \<^verbatim>\<open>info\<close>; a version that the path contains; a version that it
  does not contain; an \<^verbatim>\<open>info\<close> that the document inherits, without a version;
  and a version that is an object whose own \<^verbatim>\<open>toString\<close> is a string.
\<close>

theorem validateSpecificationAPIVersion_guarded_by_info_witness:
  "validateSpecificationAPIVersion (exampleEnv []) fooSpec
        (JObject ObjectPrototype [(''swagger'', JString ''2.0'')]) = Inr []
   \<and> Specification.path fooSpec = ''/specification/foo/stable/'' @ ''2021-01-01'' @ ''/foo.json''
   \<and> validateSpecificationAPIVersion (exampleEnv []) fooSpec
        (JObject ObjectPrototype [(''info'', JObject ObjectPrototype [(''version'', JString ''2021-01-01'')])])
       = Inr []
   \<and> validateSpecificationAPIVersion (exampleEnv []) fooSpec
        (JObject ObjectPrototype [(''info'', JObject ObjectPrototype [(''version'', JString ''2020-05-01'')])])
       = Inr [inconsistentApiVersion fooSpec]
   \<and> validateSpecificationAPIVersion (exampleEnv []) fooSpec
        (JObject (Prototype (JObject ObjectPrototype
                    [(''info'', JObject ObjectPrototype [(''title'', JString ''Foo'')])])) [])
       = Inr [inconsistentApiVersion fooSpec]
   \<and> isl (validateSpecificationAPIVersion (exampleEnv []) fooSpec
        (JObject ObjectPrototype
           [(''info'', JObject ObjectPrototype
                          [(''version'', JObject ObjectPrototype [(''toString'', JString ''x'')])])]))"
proof -
  let ?env = "exampleEnv []"
  let ?noInfo = "JObject ObjectPrototype [(''swagger'', JString ''2.0'')]"
  let ?info = "\<lambda>v. JObject ObjectPrototype [(''version'', v)]"
  let ?doc = "\<lambda>v. JObject ObjectPrototype [(''info'', ?info v)]"
  let ?title = "JObject ObjectPrototype [(''title'', JString ''Foo'')]"
  let ?inherited = "JObject (Prototype (JObject ObjectPrototype [(''info'', ?title)])) []"
  let ?opaque = "JObject ObjectPrototype [(''toString'', JString ''x'')]"
  have path: "Specification.path fooSpec = ''/specification/foo/stable/'' @ ''2021-01-01'' @ ''/foo.json''"
    by (simp add: fooSpec_def)
  then have inside: "\<exists>pre post. Specification.path fooSpec = pre @ ''2021-01-01'' @ post" by blast
  have outside: "\<not> includesStr (Specification.path fooSpec) ''2020-05-01''"
    "\<not> includesStr (Specification.path fooSpec) ''undefined''"
    by (simp_all add: fooSpec_def)
  have a: "validateSpecificationAPIVersion ?env fooSpec ?noInfo = Inr []"
    using validateSpecificationAPIVersion_guarded_by_info [of ?env fooSpec ?noInfo] by simp
  have b: "validateSpecificationAPIVersion ?env fooSpec (?doc (JString ''2021-01-01'')) = Inr []"
    using validateSpecificationAPIVersion_guarded_by_info [of ?env fooSpec "?doc (JString ''2021-01-01'')"] inside by simp
  have c: "validateSpecificationAPIVersion ?env fooSpec (?doc (JString ''2020-05-01''))
             = Inr [inconsistentApiVersion fooSpec]"
    using validateSpecificationAPIVersion_guarded_by_info [of ?env fooSpec "?doc (JString ''2020-05-01'')"] outside(1)
    by (simp add: includesStr_iff)
  have d: "validateSpecificationAPIVersion ?env fooSpec ?inherited = Inr [inconsistentApiVersion fooSpec]"
    using validateSpecificationAPIVersion_guarded_by_info [of ?env fooSpec ?inherited] outside(2)
    by (simp add: includesStr_iff)
  have e: "isl (validateSpecificationAPIVersion ?env fooSpec (?doc ?opaque))"
    using validateSpecificationAPIVersion_guarded_by_info [of ?env fooSpec "?doc ?opaque"] by simp
  from a path b c d e show ?thesis by (intro conjI)
qed

section \<open>Exclusions in the result map of a run\<close>

lemma someSearch_False:
  "someSearch search subject items = Inr False \<longleftrightarrow> (\<forall>item\<in>set items. search subject item = Inr (-1))"
  by (induction items) (auto split: sum.splits)

lemma delete_filter: "AList.delete k m = filter (\<lambda>x. fst x \<noteq> k) m"
  by (induction m) auto

lemma distinct_foldl_update:
  "distinct (map fst m) \<Longrightarrow> distinct (map fst (foldl (\<lambda>m e. AList.update (f e) e m) m es))"
  by (induction es arbitrary: m) (simp_all add: distinct_update)

lemma excludeLoop_filter:
  "excludeLoop search exclude es m = Inr m' \<Longrightarrow>
     m' = filter (\<lambda>kv. \<not> (\<exists>e\<in>set es. fst e = fst kv
                              \<and> someSearch search (Error.path (snd e)) exclude = Inr True)) m
     \<and> (\<forall>e\<in>set es. \<exists>hit. someSearch search (Error.path (snd e)) exclude = Inr hit)"
proof (induction es arbitrary: m)
  case Nil
  then show ?case by simp
next
  case (Cons kv rest)
  from Cons.prems obtain hit where hit: "someSearch search (Error.path (snd kv)) exclude = Inr hit"
    and loop: "excludeLoop search exclude rest (if hit then AList.delete (fst kv) m else m) = Inr m'"
    by (auto split: sum.splits)
  from Cons.IH [OF loop] have ih:
    "m' = filter (\<lambda>x. \<not> (\<exists>e\<in>set rest. fst e = fst x
                              \<and> someSearch search (Error.path (snd e)) exclude = Inr True))
            (if hit then AList.delete (fst kv) m else m)"
    and all: "\<forall>e\<in>set rest. \<exists>hit. someSearch search (Error.path (snd e)) exclude = Inr hit"
    by blast+
  have "m' = filter (\<lambda>x. \<not> (\<exists>e\<in>set (kv # rest). fst e = fst x
                              \<and> someSearch search (Error.path (snd e)) exclude = Inr True)) m"
  proof (cases hit)
    case True
    have "AList.delete (fst kv) m = filter (\<lambda>x. fst x \<noteq> fst kv) m"
      by (rule delete_filter)
    with ih True hit show ?thesis
      by (auto intro!: filter_cong)
  next
    case False
    with ih hit show ?thesis by (auto intro!: filter_cong)
  qed
  with hit all show ?case by auto
qed

text \<open>
  Claim C9. When \<^const>\<open>avocadoForDir\<close> returns a map, the map is the folder's map
  (the findings of the folder under their correlation keys, none when the folder
  does not exist) without every entry whose path some exclusion entry matches:
  for each finding that is left, of whatever code, the search of its path for each
  exclusion entry returned \<open>-1\<close>.
\<close>

theorem avocadoForDir_excludes_by_path:
  "avocadoForDir hash search existsSync validateFolder dir exclude = Inr result \<longrightarrow>
     (\<forall>kv\<in>set result. \<forall>item\<in>set exclude. search (Error.path (snd kv)) item = Inr (-1))
     \<and> (\<exists>m. (if existsSync dir
               then \<exists>es. validateFolder dir = Inr es
                      \<and> m = foldl (\<lambda>m e. AList.update (errorCorrelationId hash e) e m) [] es
               else m = [])
            \<and> result = filter (\<lambda>kv. \<forall>item\<in>set exclude. search (Error.path (snd kv)) item = Inr (-1)) m)"
proof
  assume run: "avocadoForDir hash search existsSync validateFolder dir exclude = Inr result"
  then obtain m where m: "if existsSync dir
               then \<exists>es. validateFolder dir = Inr es
                      \<and> m = foldl (\<lambda>m e. AList.update (errorCorrelationId hash e) e m) [] es
               else m = []"
    and loop: "excludeLoop search exclude m m = Inr result"
    by (auto simp: avocadoForDir_def split: if_splits sum.splits)
  have dist: "distinct (map fst m)"
    using m distinct_foldl_update [of "[]" "errorCorrelationId hash"] by (auto split: if_splits)
  from excludeLoop_filter [OF loop] have
    res: "result = filter (\<lambda>kv. \<not> (\<exists>e\<in>set m. fst e = fst kv
                              \<and> someSearch search (Error.path (snd e)) exclude = Inr True)) m"
    and all: "\<forall>e\<in>set m. \<exists>hit. someSearch search (Error.path (snd e)) exclude = Inr hit"
    by blast+
  have same: "\<And>kv. kv \<in> set m \<Longrightarrow>
      (\<not> (\<exists>e\<in>set m. fst e = fst kv \<and> someSearch search (Error.path (snd e)) exclude = Inr True))
      = (\<forall>item\<in>set exclude. search (Error.path (snd kv)) item = Inr (-1))"
  proof -
    fix kv assume kv: "kv \<in> set m"
    have uniq: "\<And>e. e \<in> set m \<Longrightarrow> fst e = fst kv \<Longrightarrow> e = kv"
      using dist kv by (metis eq_key_imp_eq_value prod.collapse)
    from all kv obtain hit where hit: "someSearch search (Error.path (snd kv)) exclude = Inr hit" by blast
    show "(\<not> (\<exists>e\<in>set m. fst e = fst kv \<and> someSearch search (Error.path (snd e)) exclude = Inr True))
      = (\<forall>item\<in>set exclude. search (Error.path (snd kv)) item = Inr (-1))"
    proof (cases hit)
      case True
      with hit have "\<not> (\<forall>item\<in>set exclude. search (Error.path (snd kv)) item = Inr (-1))"
        using someSearch_False [of search "Error.path (snd kv)" exclude] by simp
      with True hit kv show ?thesis by auto
    next
      case False
      with hit have "\<forall>item\<in>set exclude. search (Error.path (snd kv)) item = Inr (-1)"
        using someSearch_False [of search "Error.path (snd kv)" exclude] by simp
      moreover have "\<not> (\<exists>e\<in>set m. fst e = fst kv \<and> someSearch search (Error.path (snd e)) exclude = Inr True)"
      proof
        assume "\<exists>e\<in>set m. fst e = fst kv \<and> someSearch search (Error.path (snd e)) exclude = Inr True"
        then obtain e where "e \<in> set m" "fst e = fst kv"
          and t: "someSearch search (Error.path (snd e)) exclude = Inr True" by blast
        then have "e = kv" using uniq by blast
        with t hit False show False by simp
      qed
      ultimately show ?thesis by blast
    qed
  qed
  have res': "result = filter (\<lambda>kv. \<forall>item\<in>set exclude. search (Error.path (snd kv)) item = Inr (-1)) m"
    unfolding res
  proof (rule filter_cong [OF refl])
    fix kv assume "kv \<in> set m"
    then show "(\<not> (\<exists>e\<in>set m. fst e = fst kv \<and> someSearch search (Error.path (snd e)) exclude = Inr True))
      = (\<forall>item\<in>set exclude. search (Error.path (snd kv)) item = Inr (-1))"
      by (rule same)
  qed
  then have "\<forall>kv\<in>set result. \<forall>item\<in>set exclude. search (Error.path (snd kv)) item = Inr (-1)"
    by auto
  with m res' show "(\<forall>kv\<in>set result. \<forall>item\<in>set exclude. search (Error.path (snd kv)) item = Inr (-1))
     \<and> (\<exists>m. (if existsSync dir
               then \<exists>es. validateFolder dir = Inr es
                      \<and> m = foldl (\<lambda>m e. AList.update (errorCorrelationId hash e) e m) [] es
               else m = [])
            \<and> result = filter (\<lambda>kv. \<forall>item\<in>set exclude. search (Error.path (snd kv)) item = Inr (-1)) m)"
    by blast
qed

theorem avocadoForDir_excludes_by_path_witness:
  "avocadoForDir exampleHash exampleSearch (\<lambda>d. True) (\<lambda>d. Inr [commonFinding, fooFinding])
       ''/spec'' [''common''] = Inr [(''u:/spec/foo/foo.json'', fooFinding)]
   \<and> exampleSearch (Error.path commonFinding) ''common'' = Inr 0
   \<and> exampleSearch (Error.path fooFinding) ''common'' = Inr (-1)"
proof -
  have run: "avocadoForDir exampleHash exampleSearch (\<lambda>d. True) (\<lambda>d. Inr [commonFinding, fooFinding])
       ''/spec'' [''common''] = Inr [(''u:/spec/foo/foo.json'', fooFinding)]"
    by code_simp
  have hit: "exampleSearch (Error.path commonFinding) ''common'' = Inr 0"
    by code_simp
  from avocadoForDir_excludes_by_path
         [of exampleHash exampleSearch "\<lambda>d. True" "\<lambda>d. Inr [commonFinding, fooFinding]"
             "''/spec''" "[''common'']" "[(''u:/spec/foo/foo.json'', fooFinding)]"] run
  have "\<forall>kv\<in>set [(''u:/spec/foo/foo.json'', fooFinding)].
          \<forall>item\<in>set [''common'']. exampleSearch (Error.path (snd kv)) item = Inr (-1)"
    by blast
  then have "exampleSearch (Error.path fooFinding) ''common'' = Inr (-1)" by simp
  with run hit show ?thesis by blast
qed

section \<open>Findings that both runs share\<close>




section \<open>The default tag and its versions\<close>

lemma firstDeclaredTag_find:
  "firstDeclaredTag libs blocks
     = (case find (declaresTag libs) blocks of
          None \<Rightarrow> None
        | Some block \<Rightarrow> definitionTag libs (the (literal (the block))))"
  by (induction blocks) (auto simp: declaresTag_def split: option.splits)

lemma getDefaultTag_resolution:
  "getDefaultTag libs markDown
     = (case basicInformationTag libs markDown of
          Some t \<Rightarrow> Some t
        | None \<Rightarrow>
            (case find (declaresTag libs) (map snd (openApiMd_getCodeBlocksAndHeadings libs markDown)) of
               None \<Rightarrow> None
             | Some block \<Rightarrow> definitionTag libs (the (literal (the block)))))"
  unfolding getDefaultTag_def basicInformationTag_def Let_def firstDeclaredTag_find
  by (rule refl)

lemma version_nonempty: "getVersionFromInputFile f = Some v \<Longrightarrow> v \<noteq> []"
proof -
  assume "getVersionFromInputFile f = Some v"
  then have "find apiVersionRegex (butlast (split (CHR ''/'') f)) = Some v"
    by (simp add: getVersionFromInputFile_def Let_def split: if_splits)
  then have "apiVersionRegex v" by (auto simp: find_Some_iff)
  then show "v \<noteq> []" by (auto simp: apiVersionRegex_def)
qed

lemma finite_extractedVersions: "finite (extractedVersions inputFiles)"
proof -
  have "extractedVersions inputFiles \<subseteq> the ` getVersionFromInputFile ` set inputFiles"
    by (force simp: extractedVersions_def)
  then show ?thesis by (rule finite_subset) simp
qed

lemma extractedVersions_Cons:
  "extractedVersions (f # fs)
     = (case getVersionFromInputFile f of None \<Rightarrow> {} | Some v \<Rightarrow> {v}) \<union> extractedVersions fs"
  by (auto simp: extractedVersions_def split: option.splits)

lemma versionsLoop_card:
  "finite V \<Longrightarrow> card V \<le> 1 \<Longrightarrow> versionsLoop inputFiles V = (1 < card (V \<union> extractedVersions inputFiles))"
proof (induction inputFiles arbitrary: V)
  case Nil
  then show ?case by (simp add: extractedVersions_def)
next
  case (Cons f fs)
  show ?case
  proof (cases "getVersionFromInputFile f")
    case None
    with Cons show ?thesis by (simp add: extractedVersions_Cons)
  next
    case (Some v)
    then have ne: "v \<noteq> []" by (rule version_nonempty)
    have eq: "V \<union> extractedVersions (f # fs) = insert v V \<union> extractedVersions fs"
      using Some by (auto simp: extractedVersions_Cons)
    show ?thesis
    proof (cases "1 < card (insert v V)")
      case True
      have "card (insert v V) \<le> card (insert v V \<union> extractedVersions fs)"
        using Cons.prems finite_extractedVersions by (intro card_mono) auto
      with True have "1 < card (insert v V \<union> extractedVersions fs)" by simp
      with True Some ne eq show ?thesis by simp
    next
      case False
      then have "card (insert v V) \<le> 1" by simp
      with Cons.IH [of "insert v V"] Cons.prems
      have "versionsLoop fs (insert v V) = (1 < card (insert v V \<union> extractedVersions fs))" by simp
      with False Some ne eq show ?thesis by simp
    qed
  qed
qed

lemma isContainsMultiVersion_iff:
  "isContainsMultiVersion libs markDown
     \<longleftrightarrow> (\<exists>t inputFiles. getDefaultTag libs markDown = Some t \<and> t \<noteq> []
           \<and> openApiMd_getInputFilesForTag libs markDown t = Some inputFiles
           \<and> 1 < card (extractedVersions inputFiles))"
  by (auto simp: isContainsMultiVersion_def versionsLoop_card split: option.splits)

text \<open>
  Claim C8 counts the version-looking segments that the input files contain. The
  code counts what \<^const>\<open>getVersionFromInputFile\<close> extracts: nothing from a path with
  fewer than two segments before the file name, and only the first matching
  segment of a path. Two input files under two versions, each with a single
  directory segment, yield no \<^verbatim>\<open>MULTIPLE_API_VERSION\<close> finding, and neither does one
  input file with two version segments.
\<close>

theorem multi_version_segments_counterexample:
  "getDefaultTag (exampleLibsFor [''2019-01-01/a.json'', ''2020-01-01/b.json''])
       (Node ''document'' None None []) = Some ''package-2020-01''
   \<and> split (CHR ''/'') ''2019-01-01/a.json'' = [''2019-01-01'', ''a.json'']
   \<and> split (CHR ''/'') ''2020-01-01/b.json'' = [''2020-01-01'', ''b.json'']
   \<and> apiVersionRegex ''2019-01-01'' \<and> apiVersionRegex ''2020-01-01''
   \<and> map code (validateReadMeFile (exampleLibsFor [''2019-01-01/a.json'', ''2020-01-01/b.json''])
                   ''/spec/readme.md'' (Node ''document'' None None []))
       = [NOT_AUTOREST_MARKDOWN]
   \<and> split (CHR ''/'') ''foo/2019-01-01/2020-01-01/a.json''
       = [''foo'', ''2019-01-01'', ''2020-01-01'', ''a.json'']
   \<and> map code (validateReadMeFile (exampleLibsFor [''foo/2019-01-01/2020-01-01/a.json''])
                   ''/spec/readme.md'' (Node ''document'' None None []))
       = [NOT_AUTOREST_MARKDOWN]"
  by code_simp

text \<open>
  Claim C8, amended. The default tag is the tag of the code block under
  \<^verbatim>\<open>Basic Information\<close> when that block declares one, and otherwise the tag of the
  first block, in the order of the code-block map, whose info string is
  \<^verbatim>\<open>yaml\<close> or \<^verbatim>\<open>json\<close> and that declares a tag. The check yields a
  \<^verbatim>\<open>MULTIPLE_API_VERSION\<close> finding if and only if there is a default tag whose
  input files give more than one distinct version, the version of a file being
  what \<^const>\<open>getVersionFromInputFile\<close> extracts from it (claim C10). The finding is a
  Warning and carries the default tag.
\<close>

theorem default_tag_multi_version:
  "getDefaultTag libs markDown
     = (case basicInformationTag libs markDown of
          Some t \<Rightarrow> Some t
        | None \<Rightarrow>
            (case find (declaresTag libs) (map snd (openApiMd_getCodeBlocksAndHeadings libs markDown)) of
               None \<Rightarrow> None
             | Some block \<Rightarrow> definitionTag libs (the (literal (the block)))))
   \<and> ((\<exists>e\<in>set (validateReadMeFile libs readMe markDown). code e = MULTIPLE_API_VERSION)
        \<longleftrightarrow> (\<exists>t inputFiles. getDefaultTag libs markDown = Some t \<and> t \<noteq> []
              \<and> openApiMd_getInputFilesForTag libs markDown t = Some inputFiles
              \<and> 1 < card (extractedVersions inputFiles)))
   \<and> (\<forall>e\<in>set (validateReadMeFile libs readMe markDown).
         code e = MULTIPLE_API_VERSION \<longrightarrow>
           level e = Warning \<and> body e = MultipleApiVersion readMe (getDefaultTag libs markDown))"
proof (intro conjI)
  show "getDefaultTag libs markDown
     = (case basicInformationTag libs markDown of
          Some t \<Rightarrow> Some t
        | None \<Rightarrow>
            (case find (declaresTag libs) (map snd (openApiMd_getCodeBlocksAndHeadings libs markDown)) of
               None \<Rightarrow> None
             | Some block \<Rightarrow> definitionTag libs (the (literal (the block)))))"
    by (rule getDefaultTag_resolution)
  have "(\<exists>e\<in>set (validateReadMeFile libs readMe markDown). code e = MULTIPLE_API_VERSION)
          \<longleftrightarrow> isContainsMultiVersion libs markDown"
    by (auto simp: validateReadMeFile_def code_def)
  then show "(\<exists>e\<in>set (validateReadMeFile libs readMe markDown). code e = MULTIPLE_API_VERSION)
        \<longleftrightarrow> (\<exists>t inputFiles. getDefaultTag libs markDown = Some t \<and> t \<noteq> []
              \<and> openApiMd_getInputFilesForTag libs markDown t = Some inputFiles
              \<and> 1 < card (extractedVersions inputFiles))"
    by (simp add: isContainsMultiVersion_iff)
  show "\<forall>e\<in>set (validateReadMeFile libs readMe markDown).
         code e = MULTIPLE_API_VERSION \<longrightarrow>
           level e = Warning \<and> body e = MultipleApiVersion readMe (getDefaultTag libs markDown)"
    by (auto simp: validateReadMeFile_def code_def split: if_splits)
qed

theorem default_tag_multi_version_witness:
  "basicInformationTag exampleLibs (Node ''document'' None None []) = Some ''package-2020-01''
   \<and> getDefaultTag exampleLibs (Node ''document'' None None []) = Some ''package-2020-01''
   \<and> map code (validateReadMeFile exampleLibs ''/spec/readme.md'' (Node ''document'' None None []))
       = [NOT_AUTOREST_MARKDOWN, MULTIPLE_API_VERSION]
   \<and> (\<exists>t inputFiles. getDefaultTag exampleLibs (Node ''document'' None None []) = Some t \<and> t \<noteq> []
         \<and> openApiMd_getInputFilesForTag exampleLibs (Node ''document'' None None []) t = Some inputFiles
         \<and> 1 < card (extractedVersions inputFiles))"
proof -
  let ?md = "Node ''document'' None None []"
  have a: "basicInformationTag exampleLibs ?md = Some ''package-2020-01''" by code_simp
  have b: "getDefaultTag exampleLibs ?md = Some ''package-2020-01''" by code_simp
  have c: "map code (validateReadMeFile exampleLibs ''/spec/readme.md'' ?md)
             = [NOT_AUTOREST_MARKDOWN, MULTIPLE_API_VERSION]" by code_simp
  have "code ` set (validateReadMeFile exampleLibs ''/spec/readme.md'' ?md)
          = set (map code (validateReadMeFile exampleLibs ''/spec/readme.md'' ?md))"
    by simp
  also have "\<dots> = set [NOT_AUTOREST_MARKDOWN, MULTIPLE_API_VERSION]"
    by (simp only: c)
  finally have "MULTIPLE_API_VERSION \<in> code ` set (validateReadMeFile exampleLibs ''/spec/readme.md'' ?md)"
    by simp
  then obtain e where e: "e \<in> set (validateReadMeFile exampleLibs ''/spec/readme.md'' ?md)"
    "MULTIPLE_API_VERSION = code e" by (rule imageE)
  have d: "\<exists>e\<in>set (validateReadMeFile exampleLibs ''/spec/readme.md'' ?md). code e = MULTIPLE_API_VERSION"
    using e by (intro bexI [of _ e]) simp_all
  from default_tag_multi_version [where libs = exampleLibs and markDown = ?md and readMe = "''/spec/readme.md''"] d
  have "\<exists>t inputFiles. getDefaultTag exampleLibs ?md = Some t \<and> t \<noteq> []
         \<and> openApiMd_getInputFilesForTag exampleLibs ?md t = Some inputFiles
         \<and> 1 < card (extractedVersions inputFiles)"
    by blast
  with a b c show ?thesis by blast
qed

end
